theory Spec2Isabelle
  imports Main "HOL-Library.AList"
begin

section \<open>Python strings\<close>

text \<open>
  A Python \<^verbatim>\<open>str\<close> is the list of its code points. The string literals of the source
  are written \<open>str ''...''\<close>.
\<close>

type_synonym pystr = "int list"

definition str :: "string \<Rightarrow> pystr" where
  "str s = map of_char s"

section \<open>The category taxonomy\<close>

text \<open>
  The module constants of \<^verbatim>\<open>main.py\<close>. The prompt table
  \<^verbatim>\<open>ERROR_QUESTION_TEXTS\<close> only feeds the text browser of the drill-down
  dialog and is not part of the model.
\<close>

definition ERROR_COLUMNS :: "pystr list" where
  "ERROR_COLUMNS =
     [str ''Grammar'', str ''Factuality'', str ''Hallucination'', str ''Redundancy'', str ''Repetition'',
      str ''Missing Step'', str ''Coherency'', str ''Commonsense'', str ''Arithmetic'']"

definition REQUIRED_COLUMNS :: "pystr list" where
  "REQUIRED_COLUMNS =
     [str ''question'', str ''true_answer'', str ''predicted_answer_full'', str ''is_correct''] @ ERROR_COLUMNS"

section \<open>Python values, dictionaries and strings\<close>

text \<open>
  A row produced by \<^verbatim>\<open>csv.DictReader\<close> is a dictionary whose keys are column
  names, or \<^verbatim>\<open>None\<close> (the reader's \<^verbatim>\<open>restkey\<close>, for the surplus
  fields of a long line), and whose values are strings, \<^verbatim>\<open>None\<close> (the reader's
  \<^verbatim>\<open>restval\<close>, for the columns a short line does not reach) or the list of
  surplus fields. A dictionary is an association list in insertion order;
  \<open>AList.update\<close> is Python's \<^verbatim>\<open>d[k] = v\<close>: it overwrites in place or appends.
\<close>

datatype pyval = PyNone | PyStr pystr | PyList "pystr list"

type_synonym row = "(pystr option \<times> pyval) list"

datatype py_error = AttributeError | TypeError | KeyError | ValueError | OSError

text \<open>\<^verbatim>\<open>row.get(key, default)\<close> for a column name and a string default.\<close>

definition row_get :: "row \<Rightarrow> pystr \<Rightarrow> pystr \<Rightarrow> pyval" where
  "row_get r key dflt = (case map_of r (Some key) of None \<Rightarrow> PyStr dflt | Some v \<Rightarrow> v)"

text \<open>
  \<^verbatim>\<open>str.strip()\<close> removes from both ends the code points that Python counts as
  whitespace: U+0009 to U+000D, U+001C to U+0020, U+0085, U+00A0, U+1680, U+2000 to U+200A,
  U+2028, U+2029, U+202F, U+205F and U+3000.
\<close>

definition py_isspace :: "int \<Rightarrow> bool" where
  "py_isspace c \<longleftrightarrow>
     c \<in> set [0x09, 0x0A, 0x0B, 0x0C, 0x0D, 0x1C, 0x1D, 0x1E, 0x1F, 0x20, 0x85, 0xA0,
               0x1680, 0x2000, 0x2001, 0x2002, 0x2003, 0x2004, 0x2005, 0x2006, 0x2007,
               0x2008, 0x2009, 0x200A, 0x2028, 0x2029, 0x202F, 0x205F, 0x3000]"

definition py_strip :: "pystr \<Rightarrow> pystr" where
  "py_strip s = rev (dropWhile py_isspace (rev (dropWhile py_isspace s)))"

text \<open>
  \<^verbatim>\<open>str.lower()\<close>. The capitals \<open>A\<close> to \<open>Z\<close> become \<open>a\<close> to \<open>z\<close>. Outside
  ASCII exactly two code points have ASCII letters in their lowercase: U+0130 becomes
  \<open>i\<close> followed by U+0307, and U+212A becomes \<open>k\<close>. The lowercase of any other code
  point outside ASCII lies outside ASCII; the model leaves such a code point as it is, which
  no comparison of the result with an ASCII string can tell from Python's result.
\<close>

definition py_lower_char :: "int \<Rightarrow> pystr" where
  "py_lower_char c =
     (if 0x41 \<le> c \<and> c \<le> 0x5A then [c + 0x20]
      else if c = 0x130 then [0x69, 0x307]
      else if c = 0x212A then [0x6B]
      else [c])"

definition py_lower :: "pystr \<Rightarrow> pystr" where
  "py_lower s = concat (map py_lower_char s)"

text \<open>
  The test \<^verbatim>\<open>row.get("is_correct", "").strip().lower() == "true"\<close>, which three
  methods of the row overview make. A value that is not a string has no
  \<^verbatim>\<open>strip\<close>: the attribute lookup raises.
\<close>

definition is_correct_true :: "row \<Rightarrow> py_error + bool" where
  "is_correct_true r =
     (case row_get r (str ''is_correct'') [] of
        PyStr s \<Rightarrow> Inr (py_lower (py_strip s) = str ''true'')
      | _ \<Rightarrow> Inl AttributeError)"

section \<open>The record store: \<^verbatim>\<open>load_csv\<close> and \<^verbatim>\<open>save_csv\<close>\<close>

text \<open>
  The text of a file is modelled after tokenisation, as the list of lines that
  \<^verbatim>\<open>csv.reader\<close> yields, each a list of fields; what is written is modelled as
  the list of rows handed to \<^verbatim>\<open>csv.writer.writerow\<close> (the writer renders
  \<^verbatim>\<open>None\<close> as an empty field).

  \<^verbatim>\<open>DictReader.__next__\<close>, for one line that is not blank:
  \<^verbatim>\<open>d = dict(zip(self.fieldnames, row))\<close>, then the surplus fields go under the key
  \<^verbatim>\<open>None\<close>, or the field names the line does not reach get the value
  \<^verbatim>\<open>None\<close>.
\<close>

definition DictReader_row :: "pystr list \<Rightarrow> pystr list \<Rightarrow> row" where
  "DictReader_row fieldnames line =
     (let d = fold (\<lambda>(k, v). AList.update (Some k) (PyStr v)) (zip fieldnames line) [];
          lf = length fieldnames;
          lr = length line
      in if lf < lr then AList.update None (PyList (drop lf line)) d
         else if lf > lr then fold (\<lambda>key. AList.update (Some key) PyNone) (drop lr fieldnames) d
         else d)"

text \<open>
  \<^verbatim>\<open>for col in ERROR_COLUMNS: if col not in headers: headers.append(col)\<close>, in
  \<^verbatim>\<open>load_csv\<close> and again in \<^verbatim>\<open>save_csv\<close>.
\<close>

definition append_missing_columns :: "pystr list \<Rightarrow> pystr list" where
  "append_missing_columns headers =
     fold (\<lambda>col hs. if col \<notin> set hs then hs @ [col] else hs) ERROR_COLUMNS headers"

text \<open>
  \<^verbatim>\<open>for col in ERROR_COLUMNS: if col not in row: row[col] = "No"\<close>, in
  \<^verbatim>\<open>load_csv\<close> and again in \<^verbatim>\<open>save_csv\<close>.
\<close>

definition fill_missing_categories :: "row \<Rightarrow> row" where
  "fill_missing_categories r =
     fold (\<lambda>col d. if map_of d (Some col) = None then AList.update (Some col) (PyStr (str ''No'')) d else d)
       ERROR_COLUMNS r"

record CSVTableModel =
  getDataList :: "row list"
  getHeaders :: "pystr list"

datatype mw_message =
    MissingColumns "pystr list"
  | LoadFailed py_error
  | NoRows
  | NoCSVLoaded
  | Saved pystr
  | SaveFailed py_error

record MainWindow =
  model :: "CSVTableModel option"
  csv_file_path :: "pystr option"
  annotate_btn :: bool
  save_btn :: bool
  mw_messages :: "mw_message list"

definition MainWindow_init :: MainWindow where
  "MainWindow_init =
     \<lparr>model = None, csv_file_path = None, annotate_btn = False, save_btn = False,
      mw_messages = []\<rparr>"

definition mw_report :: "mw_message \<Rightarrow> MainWindow \<Rightarrow> MainWindow" where
  "mw_report m self = self\<lparr>mw_messages := mw_messages self @ [m]\<rparr>"

text \<open>
  \<^verbatim>\<open>load_csv\<close>. The arguments are the path the file dialog returned (empty when the
  user cancelled) and what opening and reading the file gives: an exception, or the lines.
  The list \<^verbatim>\<open>headers\<close> is the reader's own \<^verbatim>\<open>fieldnames\<close> list, so the
  columns appended to it are field names of the reader when \<^verbatim>\<open>list(reader)\<close>
  runs; \<^verbatim>\<open>DictReader\<close> skips blank lines. A file without a first line has
  \<^verbatim>\<open>fieldnames = None\<close>, and \<^verbatim>\<open>col not in None\<close> raises. Every
  exception is caught and reported.
\<close>

definition load_csv :: "MainWindow \<Rightarrow> pystr \<Rightarrow> py_error + pystr list list \<Rightarrow> MainWindow" where
  "load_csv self file_path content =
     (if file_path = [] then self
      else case content of
        Inl e \<Rightarrow> mw_report (LoadFailed e) self
      | Inr [] \<Rightarrow> mw_report (LoadFailed TypeError) self
      | Inr (fieldnames # lines) \<Rightarrow>
          (let headers = append_missing_columns fieldnames;
               missing = filter (\<lambda>c. c \<notin> set headers) REQUIRED_COLUMNS
           in if missing \<noteq> [] then mw_report (MissingColumns missing) self
              else
                (let data = map (\<lambda>line. fill_missing_categories (DictReader_row headers line))
                              (filter (\<lambda>line. line \<noteq> []) lines)
                 in self\<lparr>model := Some \<lparr>getDataList = data, getHeaders = headers\<rparr>,
                         csv_file_path := Some file_path,
                         annotate_btn := True,
                         save_btn := True\<rparr>)))"

text \<open>
  \<^verbatim>\<open>DictWriter._dict_to_list\<close>: a key that is no field name raises
  \<^verbatim>\<open>ValueError\<close>; a field name that is no key gives the writer's
  \<^verbatim>\<open>restval\<close>, the empty string.
\<close>

definition dict_to_list :: "pystr list \<Rightarrow> row \<Rightarrow> py_error + pyval list" where
  "dict_to_list fieldnames rowdict =
     (if \<exists>k \<in> set (map fst rowdict). k \<notin> set (map Some fieldnames) then Inl ValueError
      else Inr (map (\<lambda>key. row_get rowdict key []) fieldnames))"




section \<open>Dialogs\<close>

text \<open>
  A \<^verbatim>\<open>QDialog\<close> run by \<^verbatim>\<open>exec_()\<close> ends with a result code:
  \<^verbatim>\<open>accept()\<close> gives \<^verbatim>\<open>Accepted\<close>; \<^verbatim>\<open>reject()\<close>, which
  \<^verbatim>\<open>close()\<close> and the window's close button call, gives \<^verbatim>\<open>Rejected\<close>.
  While the dialog is open its result is \<open>None\<close>. A combo box whose items are
  \<^verbatim>\<open>["No", "Yes"]\<close> is not editable: \<^verbatim>\<open>setCurrentText\<close> selects the item
  with that text and does nothing when there is none. The user chooses one of the two items.
\<close>

datatype dialog_code = Rejected | Accepted

datatype answer = AnswerNo | AnswerYes

fun answer_text :: "answer \<Rightarrow> pystr" where
  "answer_text AnswerNo = str ''No''"
| "answer_text AnswerYes = str ''Yes''"

definition combo_setCurrentText :: "pystr \<Rightarrow> pystr \<Rightarrow> pystr" where
  "combo_setCurrentText text current = (if text \<in> set [str ''No'', str ''Yes''] then text else current)"

text \<open>
  \<^verbatim>\<open>val = d.get(key, ""); if val not in ["Yes", "No"]: val = "No"\<close>: the
  normalisation of a stored token, in \<^verbatim>\<open>load_row_into_ui\<close>.
\<close>

definition yes_no :: "pyval \<Rightarrow> pystr" where
  "yes_no val = (case val of PyStr s \<Rightarrow> (if s \<notin> set [str ''Yes'', str ''No''] then str ''No'' else s) | _ \<Rightarrow> str ''No'')"

section \<open>The drill-down: \<^verbatim>\<open>DetailedClassificationWindow\<close>\<close>

datatype dc_message = AllAnswered

record DetailedClassificationWindow =
  responses :: "(pystr \<times> pystr) list"
  error_keys :: "pystr list"
  current_idx :: int
  answer_combo :: pystr
  dc_result :: "dialog_code option"
  dc_messages :: "dc_message list"

text \<open>The index test \<^verbatim>\<open>0 <= self.current_idx < len(self.error_keys)\<close>.\<close>

definition dc_in_range :: "DetailedClassificationWindow \<Rightarrow> bool" where
  "dc_in_range self = (0 \<le> current_idx self \<and> current_idx self < int (length (error_keys self)))"

definition dc_err_key :: "DetailedClassificationWindow \<Rightarrow> pystr" where
  "dc_err_key self = error_keys self ! nat (current_idx self)"

definition load_current_question :: "DetailedClassificationWindow \<Rightarrow> DetailedClassificationWindow" where
  "load_current_question self =
     (if dc_in_range self then
        (let val = (case map_of (responses self) (dc_err_key self) of None \<Rightarrow> str ''No'' | Some v \<Rightarrow> v);
             val' = (if val \<notin> set [str ''Yes'', str ''No''] then str ''No'' else val)
         in self\<lparr>answer_combo := combo_setCurrentText val' (answer_combo self)\<rparr>)
      else self\<lparr>dc_result := Some Rejected\<rparr>)"

text \<open>
  \<^verbatim>\<open>__init__\<close>: the seed is copied (\<^verbatim>\<open>dict(initial_values)\<close>), or every
  category starts at \<^verbatim>\<open>"No"\<close> when there is no seed. The row number and the total
  only make the window title.
\<close>

definition DetailedClassificationWindow_init ::
    "(pystr \<times> pystr) list option \<Rightarrow> DetailedClassificationWindow" where
  "DetailedClassificationWindow_init initial_values =
     load_current_question
       \<lparr>responses = (case initial_values of
                       Some d \<Rightarrow> d
                     | None \<Rightarrow> map (\<lambda>col. (col, str ''No'')) ERROR_COLUMNS),
        error_keys = ERROR_COLUMNS,
        current_idx = 0,
        answer_combo = str ''No'',
        dc_result = None,
        dc_messages = []\<rparr>"

text \<open>The first statement of \<^verbatim>\<open>next_question\<close> and of \<^verbatim>\<open>finish\<close>.\<close>

definition record_answer :: "DetailedClassificationWindow \<Rightarrow> DetailedClassificationWindow" where
  "record_answer self =
     (if dc_in_range self
      then self\<lparr>responses := AList.update (dc_err_key self) (answer_combo self) (responses self)\<rparr>
      else self)"

definition next_question :: "DetailedClassificationWindow \<Rightarrow> DetailedClassificationWindow" where
  "next_question self =
     (let self1 = record_answer self;
          self2 = self1\<lparr>current_idx := current_idx self1 + 1\<rparr>
      in if current_idx self2 \<ge> int (length (error_keys self2))
         then self2\<lparr>dc_messages := dc_messages self2 @ [AllAnswered], dc_result := Some Accepted\<rparr>
         else load_current_question self2)"

definition finish :: "DetailedClassificationWindow \<Rightarrow> DetailedClassificationWindow" where
  "finish self = (record_answer self)\<lparr>dc_result := Some Accepted\<rparr>"

definition get_responses :: "DetailedClassificationWindow \<Rightarrow> (pystr \<times> pystr) list" where
  "get_responses self = responses self"

text \<open>
  One run of the modal dialog: the user chooses answers and presses Next, and ends the
  dialog with Finish or by closing the window, unless the ninth Next has ended it before.
  Events after the end of the dialog reach nothing.
\<close>

datatype dc_event = Choose answer | PressNext

datatype dc_end = PressFinish | CloseDialog

fun dc_step :: "DetailedClassificationWindow \<Rightarrow> dc_event \<Rightarrow> DetailedClassificationWindow" where
  "dc_step self (Choose a) = self\<lparr>answer_combo := answer_text a\<rparr>"
| "dc_step self PressNext = next_question self"

fun dc_run :: "DetailedClassificationWindow \<Rightarrow> dc_event list \<Rightarrow> DetailedClassificationWindow" where
  "dc_run self [] = self"
| "dc_run self (e # es) = (if dc_result self \<noteq> None then self else dc_run (dc_step self e) es)"

fun dc_finish :: "DetailedClassificationWindow \<Rightarrow> dc_end \<Rightarrow> DetailedClassificationWindow" where
  "dc_finish self PressFinish = finish self"
| "dc_finish self CloseDialog = self\<lparr>dc_result := Some Rejected\<rparr>"

definition dc_exec ::
    "DetailedClassificationWindow \<Rightarrow> dc_event list \<times> dc_end \<Rightarrow> DetailedClassificationWindow" where
  "dc_exec self session =
     (let self' = dc_run self (fst session)
      in if dc_result self' \<noteq> None then self' else dc_finish self' (snd session))"

section \<open>The row cursor: \<^verbatim>\<open>RowOverviewWindow\<close>\<close>

text \<open>
  The window holds the list of rows of the table model itself, not a copy: what it writes
  into a row is written into the record store. Its nine combo boxes are the Working
  Answers. The dictionary \<^verbatim>\<open>error_combos\<close> has exactly the keys
  \<^verbatim>\<open>ERROR_COLUMNS\<close> and is only read at these keys, so it is a function
  from column names. The window title and the row label are left out.
\<close>

record combo =
  currentText :: pystr
  isEnabled :: bool

datatype ov_message = Skipped | NoMoreRows | AtFirstRow

record RowOverviewWindow =
  csv_data :: "row list"
  current_index :: int
  question_edit :: pystr
  true_answer_edit :: pystr
  pred_answer_edit :: pystr
  error_combos :: "pystr \<Rightarrow> combo"
  detail_btn :: bool
  ov_result :: "dialog_code option"
  ov_messages :: "ov_message list"

definition ov_in_range :: "RowOverviewWindow \<Rightarrow> bool" where
  "ov_in_range self = (0 \<le> current_index self \<and> current_index self < int (length (csv_data self)))"

definition current_row :: "RowOverviewWindow \<Rightarrow> row" where
  "current_row self = csv_data self ! nat (current_index self)"

definition ov_report :: "ov_message \<Rightarrow> RowOverviewWindow \<Rightarrow> RowOverviewWindow" where
  "ov_report m self = self\<lparr>ov_messages := ov_messages self @ [m]\<rparr>"

text \<open>
  \<^verbatim>\<open>setPlainText\<close> of a text area: a string is shown, \<^verbatim>\<open>None\<close> is taken as
  the null string and shows nothing, and any other value (a list, which no row of the reader
  holds under a column name) is refused with \<^verbatim>\<open>TypeError\<close>.
\<close>

definition setPlainText :: "pyval \<Rightarrow> py_error + pystr" where
  "setPlainText text = (case text of PyStr s \<Rightarrow> Inr s | PyNone \<Rightarrow> Inr [] | PyList _ \<Rightarrow> Inl TypeError)"

text \<open>
  \<^verbatim>\<open>load_row_into_ui\<close>. An exception in a slot ends the application, so the state
  it leaves behind is not kept.
\<close>

definition lock_combos :: "(pystr \<Rightarrow> combo) \<Rightarrow> pystr \<Rightarrow> combo" where
  "lock_combos combos =
     fold (\<lambda>col ec. ec(col := \<lparr>currentText = combo_setCurrentText (str ''No'') (currentText (ec col)),
                                isEnabled = False\<rparr>))
       ERROR_COLUMNS combos"

definition show_combos :: "row \<Rightarrow> (pystr \<Rightarrow> combo) \<Rightarrow> pystr \<Rightarrow> combo" where
  "show_combos r combos =
     fold (\<lambda>col ec. ec(col := \<lparr>currentText = combo_setCurrentText (yes_no (row_get r col [])) (currentText (ec col)),
                                isEnabled = True\<rparr>))
       ERROR_COLUMNS combos"

definition load_row_into_ui :: "RowOverviewWindow \<Rightarrow> int \<Rightarrow> py_error + RowOverviewWindow" where
  "load_row_into_ui self index =
     (if index < 0 \<or> index \<ge> int (length (csv_data self)) then Inr self
      else
        (let r = csv_data self ! nat index
         in case (setPlainText (row_get r (str ''question'') []),
                  setPlainText (row_get r (str ''true_answer'') []),
                  setPlainText (row_get r (str ''predicted_answer_full'') [])) of
              (Inr question_text, Inr true_text, Inr pred_text) \<Rightarrow>
                (let self1 = self\<lparr>current_index := index, question_edit := question_text,
                                  true_answer_edit := true_text, pred_answer_edit := pred_text\<rparr>
                 in case is_correct_true r of
                      Inl e \<Rightarrow> Inl e
                    | Inr is_correct \<Rightarrow>
                        (if is_correct
                         then Inr (self1\<lparr>error_combos := lock_combos (error_combos self1),
                                         detail_btn := False\<rparr>)
                         else Inr (self1\<lparr>detail_btn := True,
                                         error_combos := show_combos r (error_combos self1)\<rparr>)))
            | _ \<Rightarrow> Inl TypeError))"

text \<open>
  \<^verbatim>\<open>__init__\<close>: nine enabled combo boxes at their first item, empty text areas, and
  the first row loaded.
\<close>

definition RowOverviewWindow_init :: "row list \<Rightarrow> int \<Rightarrow> py_error + RowOverviewWindow" where
  "RowOverviewWindow_init data row_number =
     load_row_into_ui
       \<lparr>csv_data = data, current_index = row_number - 1,
        question_edit = [], true_answer_edit = [], pred_answer_edit = [],
        error_combos = (\<lambda>col. \<lparr>currentText = str ''No'', isEnabled = True\<rparr>),
        detail_btn = True, ov_result = None, ov_messages = []\<rparr>
       (row_number - 1)"

text \<open>
  \<^verbatim>\<open>for col in ERROR_COLUMNS: self.error_combos[col].setCurrentText(final_responses[col])\<close>:
  indexing the returned dictionary at a key it lacks raises \<^verbatim>\<open>KeyError\<close>.
\<close>

fun apply_responses ::
    "(pystr \<times> pystr) list \<Rightarrow> pystr list \<Rightarrow> (pystr \<Rightarrow> combo) \<Rightarrow> py_error + (pystr \<Rightarrow> combo)" where
  "apply_responses final_responses [] ec = Inr ec"
| "apply_responses final_responses (col # cols) ec =
     (case map_of final_responses col of
        None \<Rightarrow> Inl KeyError
      | Some v \<Rightarrow>
          apply_responses final_responses cols
            (ec(col := (ec col)\<lparr>currentText := combo_setCurrentText v (currentText (ec col))\<rparr>)))"

definition current_answers :: "(pystr \<Rightarrow> combo) \<Rightarrow> (pystr \<times> pystr) list" where
  "current_answers combos =
     fold (\<lambda>col d. AList.update col (currentText (combos col)) d) ERROR_COLUMNS []"

text \<open>
  \<^verbatim>\<open>open_detailed_classification\<close>, with the session of the modal dialog it opens.
\<close>

definition open_detailed_classification ::
    "RowOverviewWindow \<Rightarrow> dc_event list \<times> dc_end \<Rightarrow> py_error + RowOverviewWindow" where
  "open_detailed_classification self session =
     (if current_index self < 0 \<or> current_index self \<ge> int (length (csv_data self)) then Inr self
      else case is_correct_true (current_row self) of
        Inl e \<Rightarrow> Inl e
      | Inr is_correct \<Rightarrow>
          (if is_correct then Inr (ov_report Skipped self)
           else
             (let dialog = dc_exec (DetailedClassificationWindow_init
                                      (Some (current_answers (error_combos self)))) session
              in if dc_result dialog = Some Accepted
                 then (case apply_responses (get_responses dialog) ERROR_COLUMNS (error_combos self) of
                         Inl e \<Rightarrow> Inl e
                       | Inr ec \<Rightarrow> Inr (self\<lparr>error_combos := ec\<rparr>))
                 else Inr self)))"

text \<open>\<^verbatim>\<open>save_current_row\<close>: the commit of the Working Answers.\<close>

definition save_current_row :: "RowOverviewWindow \<Rightarrow> py_error + RowOverviewWindow" where
  "save_current_row self =
     (if 0 \<le> current_index self \<and> current_index self < int (length (csv_data self)) then
        (let r = current_row self
         in case is_correct_true r of
              Inl e \<Rightarrow> Inl e
            | Inr is_correct \<Rightarrow>
                (let r' = (if is_correct
                           then fold (\<lambda>col. AList.update (Some col) (PyStr (str ''No''))) ERROR_COLUMNS r
                           else fold (\<lambda>col. AList.update (Some col)
                                               (PyStr (currentText (error_combos self col))))
                                  ERROR_COLUMNS r)
                 in Inr (self\<lparr>csv_data := (csv_data self)[nat (current_index self) := r']\<rparr>)))
      else Inr self)"

definition save_and_next_row :: "RowOverviewWindow \<Rightarrow> py_error + RowOverviewWindow" where
  "save_and_next_row self =
     (case save_current_row self of
        Inl e \<Rightarrow> Inl e
      | Inr self1 \<Rightarrow>
          (if current_index self1 + 1 < int (length (csv_data self1))
           then load_row_into_ui (self1\<lparr>current_index := current_index self1 + 1\<rparr>)
                  (current_index self1 + 1)
           else Inr ((ov_report NoMoreRows self1)\<lparr>ov_result := Some Rejected\<rparr>)))"

definition save_and_previous_row :: "RowOverviewWindow \<Rightarrow> py_error + RowOverviewWindow" where
  "save_and_previous_row self =
     (case save_current_row self of
        Inl e \<Rightarrow> Inl e
      | Inr self1 \<Rightarrow>
          (if current_index self1 > 0
           then load_row_into_ui (self1\<lparr>current_index := current_index self1 - 1\<rparr>)
                  (current_index self1 - 1)
           else Inr (ov_report AtFirstRow self1)))"

definition finish_all :: "RowOverviewWindow \<Rightarrow> py_error + RowOverviewWindow" where
  "finish_all self =
     (case save_current_row self of
        Inl e \<Rightarrow> Inl e
      | Inr self1 \<Rightarrow> Inr (self1\<lparr>ov_result := Some Accepted\<rparr>))"

text \<open>
  What the user can do in the open window: choose an item of an enabled combo box, open the
  drill-down, press Previous Row, Next Row or Finish All, or close the window. Events after
  the end of the dialog reach nothing; an exception ends the run.
\<close>

datatype ov_event =
    SetCombo pystr answer
  | OpenDetailed "dc_event list \<times> dc_end"
  | NextRow
  | PreviousRow
  | FinishAll
  | CloseOverview

fun ov_step :: "RowOverviewWindow \<Rightarrow> ov_event \<Rightarrow> py_error + RowOverviewWindow" where
  "ov_step self (SetCombo col a) =
     (if col \<in> set ERROR_COLUMNS \<and> isEnabled (error_combos self col)
      then Inr (self\<lparr>error_combos := (error_combos self)
                         (col := (error_combos self col)\<lparr>currentText := answer_text a\<rparr>)\<rparr>)
      else Inr self)"
| "ov_step self (OpenDetailed session) = open_detailed_classification self session"
| "ov_step self NextRow = save_and_next_row self"
| "ov_step self PreviousRow = save_and_previous_row self"
| "ov_step self FinishAll = finish_all self"
| "ov_step self CloseOverview = Inr (self\<lparr>ov_result := Some Rejected\<rparr>)"

fun ov_run :: "RowOverviewWindow \<Rightarrow> ov_event list \<Rightarrow> py_error + RowOverviewWindow" where
  "ov_run self [] = Inr self"
| "ov_run self (e # es) =
     (if ov_result self \<noteq> None then Inr self
      else case ov_step self e of Inl err \<Rightarrow> Inl err | Inr self' \<Rightarrow> ov_run self' es)"

text \<open>
  \<^verbatim>\<open>annotate_rows\<close>, with the events of the session of the row overview (a window
  still open after them is closed by the user). The rows of the model are the rows of the
  window, whatever the result code.
\<close>

definition annotate_rows :: "MainWindow \<Rightarrow> ov_event list \<Rightarrow> py_error + MainWindow" where
  "annotate_rows self events =
     (case model self of
        None \<Rightarrow> Inr self
      | Some m \<Rightarrow>
          (if getDataList m = [] then Inr (mw_report NoRows self)
           else case RowOverviewWindow_init (getDataList m) 1 of
             Inl e \<Rightarrow> Inl e
           | Inr dialog \<Rightarrow>
               (case ov_run dialog events of
                  Inl e \<Rightarrow> Inl e
                | Inr dialog' \<Rightarrow> Inr (self\<lparr>model := Some (m\<lparr>getDataList := csv_data dialog'\<rparr>)\<rparr>))))"

section \<open>Notions used by the properties\<close>

text \<open>
  The cursor is ready when the row under it, if there is one, has a string in
  \<^verbatim>\<open>is_correct\<close>, so that the commit does not raise. The window reaches a row
  only through \<^verbatim>\<open>load_row_into_ui\<close>, which has made the same test.
\<close>

definition ov_ready :: "RowOverviewWindow \<Rightarrow> bool" where
  "ov_ready self = (ov_in_range self \<longrightarrow> \<not> isl (is_correct_true (current_row self)))"

text \<open>A row is locked when the test on \<^verbatim>\<open>is_correct\<close> succeeds.\<close>

definition locked :: "row \<Rightarrow> bool" where
  "locked r = (is_correct_true r = Inr True)"

definition all_categories_no :: "row \<Rightarrow> bool" where
  "all_categories_no r = (\<forall>col \<in> set ERROR_COLUMNS. map_of r (Some col) = Some (PyStr (str ''No'')))"

text \<open>
  What every state of the drill-down satisfies that the dialog reaches from a seed \<open>d\<close>:
  the dialog is open at one of the nine categories or has been accepted by the ninth Next,
  the categories before the current one hold a recorded answer, every other key holds what
  the seed holds, and the combo box shows one of its two items.
\<close>

definition dc_inv :: "(pystr \<times> pystr) list \<Rightarrow> DetailedClassificationWindow \<Rightarrow> bool" where
  "dc_inv d w \<longleftrightarrow>
     error_keys w = ERROR_COLUMNS \<and>
     0 \<le> current_idx w \<and>
     (dc_result w = None \<and> current_idx w < 9 \<or>
      dc_result w = Some Accepted \<and> current_idx w = 9) \<and>
     answer_combo w \<in> {str ''Yes'', str ''No''} \<and>
     (\<forall>c. c \<notin> set (take (nat (current_idx w)) ERROR_COLUMNS) \<longrightarrow>
          map_of (responses w) c = map_of d c) \<and>
     (\<forall>c \<in> set (take (nat (current_idx w)) ERROR_COLUMNS).
          map_of (responses w) c \<in> {Some (str ''Yes''), Some (str ''No'')})"

text \<open>The dictionary a seed gives the dialog.\<close>

definition seed_responses :: "(pystr \<times> pystr) list option \<Rightarrow> (pystr \<times> pystr) list" where
  "seed_responses initial_values =
     (case initial_values of Some d \<Rightarrow> d | None \<Rightarrow> map (\<lambda>col. (col, str ''No'')) ERROR_COLUMNS)"

text \<open>
  The seed of Scenario D as the cursor hands it in, with all nine categories:
  \<open>Grammar\<close> at \<open>Yes\<close>, the others at \<open>No\<close>.
\<close>

definition scenario_D_seed :: "(pystr \<times> pystr) list" where
  "scenario_D_seed = (str ''Grammar'', str ''Yes'') # map (\<lambda>col. (col, str ''No'')) (tl ERROR_COLUMNS)"

text \<open>
  A small file for the concrete instances below: every column is in the header; the first
  record is not locked and stores a token outside the two-token domain, the second is
  locked and stores a \<open>Yes\<close>. The \<^verbatim>\<open>is_correct\<close> of the second record is
  \<open>TRUE\<close> between a no-break space (U+00A0) and a next-line character (U+0085), both of
  which \<^verbatim>\<open>strip\<close> removes.
\<close>

definition demo_is_correct :: pystr where
  "demo_is_correct = [0xA0] @ str ''TRUE'' @ [0x85]"

definition demo_lines :: "pystr list list" where
  "demo_lines =
     [REQUIRED_COLUMNS,
      [str ''q1'', str ''a1'', str ''p1'', str ''False'',
       str ''No'', str ''No'', str ''No'', str ''No'', str ''No'', str ''No'', str ''No'', str ''No'', str ''Maybe''],
      [str ''q2'', str ''a2'', str ''p2'', demo_is_correct,
       str ''Yes'', str ''No'', str ''No'', str ''No'', str ''No'', str ''No'', str ''No'', str ''No'', str ''No'']]"

definition demo_row0 :: row where
  "demo_row0 =
     [(Some (str ''question''), PyStr (str ''q1'')), (Some (str ''true_answer''), PyStr (str ''a1'')),
      (Some (str ''predicted_answer_full''), PyStr (str ''p1'')), (Some (str ''is_correct''), PyStr (str ''False'')),
      (Some (str ''Grammar''), PyStr (str ''No'')), (Some (str ''Factuality''), PyStr (str ''No'')),
      (Some (str ''Hallucination''), PyStr (str ''No'')), (Some (str ''Redundancy''), PyStr (str ''No'')),
      (Some (str ''Repetition''), PyStr (str ''No'')), (Some (str ''Missing Step''), PyStr (str ''No'')),
      (Some (str ''Coherency''), PyStr (str ''No'')), (Some (str ''Commonsense''), PyStr (str ''No'')),
      (Some (str ''Arithmetic''), PyStr (str ''Maybe''))]"

definition demo_row1 :: row where
  "demo_row1 =
     [(Some (str ''question''), PyStr (str ''q2'')), (Some (str ''true_answer''), PyStr (str ''a2'')),
      (Some (str ''predicted_answer_full''), PyStr (str ''p2'')), (Some (str ''is_correct''), PyStr demo_is_correct),
      (Some (str ''Grammar''), PyStr (str ''Yes'')), (Some (str ''Factuality''), PyStr (str ''No'')),
      (Some (str ''Hallucination''), PyStr (str ''No'')), (Some (str ''Redundancy''), PyStr (str ''No'')),
      (Some (str ''Repetition''), PyStr (str ''No'')), (Some (str ''Missing Step''), PyStr (str ''No'')),
      (Some (str ''Coherency''), PyStr (str ''No'')), (Some (str ''Commonsense''), PyStr (str ''No'')),
      (Some (str ''Arithmetic''), PyStr (str ''No''))]"

definition demo_window :: "RowOverviewWindow" where
  "demo_window =
     \<lparr>csv_data = [demo_row0, demo_row1], current_index = 0,
      question_edit = str ''q1'', true_answer_edit = str ''a1'', pred_answer_edit = str ''p1'',
      error_combos = show_combos demo_row0 (\<lambda>col. \<lparr>currentText = str ''No'', isEnabled = True\<rparr>),
      detail_btn = True, ov_result = None, ov_messages = []\<rparr>"





section \<open>Properties\<close>

subsection \<open>String literals\<close>

lemma str_eq_iff [simp]: "str a = str b \<longleftrightarrow> a = b"
  by (simp add: str_def inj_map_eq_map inj_of_char)

lemma str_Nil_iff [simp]: "str s = [] \<longleftrightarrow> s = []" "[] = str s \<longleftrightarrow> s = []"
  by (auto simp: str_def)

subsection \<open>Dictionaries and the commit\<close>

lemma map_of_fold_update:
  "map_of (fold (\<lambda>col. AList.update (Some col) (f col)) cols r) k =
     (case k of Some c \<Rightarrow> (if c \<in> set cols then Some (f c) else map_of r k) | None \<Rightarrow> map_of r k)"
  by (induction cols arbitrary: r) (auto simp: update_conv' split: option.splits)

lemma fold_update_same:
  "\<forall>c \<in> set cols. map_of r (Some c) = Some (f c) \<Longrightarrow>
   fold (\<lambda>col. AList.update (Some col) (f col)) cols r = r"
  by (induction cols arbitrary: r) (auto simp: update_triv)

lemma fold_update_idem:
  "fold (\<lambda>col. AList.update (Some col) (f col)) cols
     (fold (\<lambda>col. AList.update (Some col) (f col)) cols r) =
   fold (\<lambda>col. AList.update (Some col) (f col)) cols r"
  by (rule fold_update_same) (simp add: map_of_fold_update)

lemma is_correct_not_category: "(str ''is_correct'') \<notin> set ERROR_COLUMNS"
  by (simp add: ERROR_COLUMNS_def)

lemma row_get_fold_update:
  "row_get (fold (\<lambda>col. AList.update (Some col) (f col)) cols r) key d =
     (if key \<in> set cols then f key else row_get r key d)"
  by (simp add: row_get_def map_of_fold_update)

lemma is_correct_true_fold_update:
  "is_correct_true (fold (\<lambda>col. AList.update (Some col) (f col)) ERROR_COLUMNS r) = is_correct_true r"
  by (simp add: is_correct_true_def row_get_fold_update is_correct_not_category)

lemma save_current_row_out: "\<not> ov_in_range s \<Longrightarrow> save_current_row s = Inr s"
  by (auto simp: save_current_row_def ov_in_range_def)

lemma save_current_row_raises:
  "ov_in_range s \<Longrightarrow> is_correct_true (current_row s) = Inl e \<Longrightarrow> save_current_row s = Inl e"
  by (simp add: save_current_row_def ov_in_range_def)

lemma save_current_row_in:
  "ov_in_range s \<Longrightarrow> is_correct_true (current_row s) = Inr b \<Longrightarrow>
   save_current_row s =
     Inr (s\<lparr>csv_data := (csv_data s)[nat (current_index s) :=
             fold (\<lambda>col. AList.update (Some col)
                            (PyStr (if b then str ''No'' else currentText (error_combos s col))))
               ERROR_COLUMNS (current_row s)]\<rparr>)"
  by (cases b) (simp_all add: save_current_row_def ov_in_range_def)

lemma save_current_row_cases:
  assumes "save_current_row s = Inr s'"
  obtains (out) "\<not> ov_in_range s" "s' = s"
  | (inside) b where "ov_in_range s" "is_correct_true (current_row s) = Inr b"
      "s' = s\<lparr>csv_data := (csv_data s)[nat (current_index s) :=
             fold (\<lambda>col. AList.update (Some col)
                            (PyStr (if b then str ''No'' else currentText (error_combos s col))))
               ERROR_COLUMNS (current_row s)]\<rparr>"
proof (cases "ov_in_range s")
  case False
  with assms show ?thesis by (auto simp: save_current_row_out intro: out)
next
  case True
  show ?thesis
  proof (cases "is_correct_true (current_row s)")
    case (Inl e)
    with True assms show ?thesis by (simp add: save_current_row_raises)
  next
    case (Inr b)
    with True assms show ?thesis by (auto simp: save_current_row_in intro: inside)
  qed
qed

lemma save_current_row_idem:
  "save_current_row s = Inr s1 \<Longrightarrow> save_current_row s1 = Inr s1"
  by (auto simp: save_current_row_def current_row_def Let_def is_correct_true_fold_update
        fold_update_idem split: if_splits sum.splits)

lemma save_current_row_fields:
  assumes "save_current_row s = Inr s'"
  shows "s' = s\<lparr>csv_data := csv_data s'\<rparr> \<and>
    length (csv_data s') = length (csv_data s) \<and>
    (\<forall>j. j \<noteq> nat (current_index s) \<longrightarrow> csv_data s' ! j = csv_data s ! j) \<and>
    (\<forall>j k. k \<notin> Some ` set ERROR_COLUMNS \<longrightarrow> map_of (csv_data s' ! j) k = map_of (csv_data s ! j) k)"
  using assms
proof (cases rule: save_current_row_cases)
  case out
  then show ?thesis by simp
next
  case (inside b)
  have "map_of (csv_data s' ! j) k = map_of (csv_data s ! j) k"
    if "k \<notin> Some ` set ERROR_COLUMNS" for j k
  proof (cases "j = nat (current_index s)")
    case True
    with inside that show ?thesis
      by (auto simp: ov_in_range_def current_row_def map_of_fold_update split: option.splits)
  next
    case False
    with inside show ?thesis by simp
  qed
  with inside show ?thesis by simp
qed


subsection \<open>Loading a row into the window\<close>

lemma load_row_into_ui_out:
  "\<not> (0 \<le> i \<and> i < int (length (csv_data s))) \<Longrightarrow> load_row_into_ui s i = Inr s"
  by (auto simp: load_row_into_ui_def)

lemma load_row_into_ui_in:
  assumes "0 \<le> i" "i < int (length (csv_data s))"
  shows "load_row_into_ui s i =
    (case (setPlainText (row_get (csv_data s ! nat i) (str ''question'') []),
           setPlainText (row_get (csv_data s ! nat i) (str ''true_answer'') []),
           setPlainText (row_get (csv_data s ! nat i) (str ''predicted_answer_full'') [])) of
       (Inr q, Inr t, Inr p) \<Rightarrow>
         (case is_correct_true (csv_data s ! nat i) of
            Inl e \<Rightarrow> Inl e
          | Inr b \<Rightarrow>
              Inr (s\<lparr>current_index := i, question_edit := q, true_answer_edit := t,
                     pred_answer_edit := p,
                     error_combos := (if b then lock_combos (error_combos s)
                                      else show_combos (csv_data s ! nat i) (error_combos s)),
                     detail_btn := \<not> b\<rparr>))
     | _ \<Rightarrow> Inl TypeError)"
  using assms
  by (simp add: load_row_into_ui_def Let_def split: prod.split sum.split)

lemma load_row_into_ui_cases:
  assumes "load_row_into_ui s i = Inr s'"
  obtains (out) "\<not> (0 \<le> i \<and> i < int (length (csv_data s)))" "s' = s"
  | (inside) q t p b where "0 \<le> i" "i < int (length (csv_data s))"
      "is_correct_true (csv_data s ! nat i) = Inr b"
      "s' = s\<lparr>current_index := i, question_edit := q, true_answer_edit := t,
                     pred_answer_edit := p,
                     error_combos := (if b then lock_combos (error_combos s)
                                      else show_combos (csv_data s ! nat i) (error_combos s)),
                     detail_btn := \<not> b\<rparr>"
proof (cases "0 \<le> i \<and> i < int (length (csv_data s))")
  case False
  with assms show ?thesis by (intro out) (simp_all add: load_row_into_ui_out)
next
  case True
  then have i: "0 \<le> i" "i < int (length (csv_data s))" by simp_all
  from assms show ?thesis
    unfolding load_row_into_ui_in [OF i]
    by (cases "setPlainText (row_get (csv_data s ! nat i) (str ''question'') [])";
        cases "setPlainText (row_get (csv_data s ! nat i) (str ''true_answer'') [])";
        cases "setPlainText (row_get (csv_data s ! nat i) (str ''predicted_answer_full'') [])";
        cases "is_correct_true (csv_data s ! nat i)")
       (auto intro: inside [OF i])
qed

lemma load_row_into_ui_fields:
  assumes "load_row_into_ui s i = Inr s'"
  shows "csv_data s' = csv_data s \<and> ov_result s' = ov_result s \<and> ov_messages s' = ov_messages s \<and>
    (0 \<le> i \<and> i < int (length (csv_data s)) \<longrightarrow>
       current_index s' = i \<and>
       (\<exists>b. is_correct_true (csv_data s ! nat i) = Inr b \<and> detail_btn s' = (\<not> b) \<and>
            error_combos s' = (if b then lock_combos (error_combos s)
                               else show_combos (csv_data s ! nat i) (error_combos s)))) \<and>
    (\<not> (0 \<le> i \<and> i < int (length (csv_data s))) \<longrightarrow> s' = s)"
  using assms by (cases rule: load_row_into_ui_cases) auto

lemma load_row_into_ui_ready:
  assumes "load_row_into_ui s i = Inr s'" "0 \<le> i" "i < int (length (csv_data s))"
  shows "ov_ready s'"
  using load_row_into_ui_fields [OF assms(1)] assms(2,3)
  by (auto simp: ov_ready_def current_row_def)

lemma ov_ready_init:
  assumes "RowOverviewWindow_init data n = Inr s"
  shows "ov_ready s"
proof (cases "0 \<le> n - 1 \<and> n - 1 < int (length data)")
  case True
  with assms show ?thesis
    unfolding RowOverviewWindow_init_def by (intro load_row_into_ui_ready) auto
next
  case False
  with assms have "current_index s = n - 1" "csv_data s = data"
    unfolding RowOverviewWindow_init_def by (auto dest!: load_row_into_ui_fields)
  with False show ?thesis by (auto simp: ov_ready_def ov_in_range_def)
qed

lemma save_current_row_ready:
  assumes "save_current_row s = Inr s'"
  shows "ov_ready s'"
  using assms
proof (cases rule: save_current_row_cases)
  case out
  then show ?thesis by (simp add: ov_ready_def)
next
  case (inside b)
  from inside(1) have "nat (current_index s) < length (csv_data s)"
    by (auto simp: ov_in_range_def)
  with inside show ?thesis
    by (simp add: ov_ready_def current_row_def is_correct_true_fold_update)
qed

lemma ov_ready_save: "ov_ready s \<Longrightarrow> \<exists>s'. save_current_row s = Inr s'"
  by (cases "ov_in_range s"; cases "is_correct_true (current_row s)")
     (auto simp: ov_ready_def save_current_row_out save_current_row_in)

lemma save_current_row_index:
  "save_current_row s = Inr s' \<Longrightarrow>
   current_index s' = current_index s \<and> error_combos s' = error_combos s \<and>
   ov_result s' = ov_result s \<and> ov_messages s' = ov_messages s \<and> detail_btn s' = detail_btn s"
  by (erule save_current_row_cases) auto

lemma open_detailed_classification_fields:
  assumes "open_detailed_classification s session = Inr s'"
  shows "csv_data s' = csv_data s \<and> current_index s' = current_index s \<and> ov_result s' = ov_result s"
  using assms
  by (auto simp: open_detailed_classification_def ov_report_def Let_def split: if_splits sum.splits)

lemma save_and_next_row_cases:
  assumes "save_and_next_row s = Inr s'"
  obtains (move) s1 where "save_current_row s = Inr s1"
      "current_index s + 1 < int (length (csv_data s))"
      "load_row_into_ui (s1\<lparr>current_index := current_index s + 1\<rparr>) (current_index s + 1) = Inr s'"
  | (stay) s1 where "save_current_row s = Inr s1"
      "\<not> current_index s + 1 < int (length (csv_data s))"
      "s' = (ov_report NoMoreRows s1)\<lparr>ov_result := Some Rejected\<rparr>"
proof (cases "save_current_row s")
  case (Inl e)
  with assms show ?thesis by (simp add: save_and_next_row_def)
next
  case (Inr s1)
  note idx = save_current_row_index [OF Inr] and len = save_current_row_fields [OF Inr]
  show ?thesis
  proof (cases "current_index s + 1 < int (length (csv_data s))")
    case True
    with assms Inr idx len show ?thesis by (intro move [of s1]) (auto simp: save_and_next_row_def)
  next
    case False
    with assms Inr idx len show ?thesis by (intro stay [of s1]) (auto simp: save_and_next_row_def)
  qed
qed

lemma save_and_previous_row_cases:
  assumes "save_and_previous_row s = Inr s'"
  obtains (move) s1 where "save_current_row s = Inr s1"
      "current_index s > 0"
      "load_row_into_ui (s1\<lparr>current_index := current_index s - 1\<rparr>) (current_index s - 1) = Inr s'"
  | (stay) s1 where "save_current_row s = Inr s1"
      "\<not> current_index s > 0"
      "s' = ov_report AtFirstRow s1"
proof (cases "save_current_row s")
  case (Inl e)
  with assms show ?thesis by (simp add: save_and_previous_row_def)
next
  case (Inr s1)
  note idx = save_current_row_index [OF Inr] and len = save_current_row_fields [OF Inr]
  show ?thesis
  proof (cases "current_index s > 0")
    case True
    with assms Inr idx len show ?thesis by (intro move [of s1]) (auto simp: save_and_previous_row_def)
  next
    case False
    with assms Inr idx len show ?thesis by (intro stay [of s1]) (auto simp: save_and_previous_row_def)
  qed
qed


subsection \<open>Steps and runs of the row overview\<close>

lemma finish_all_cases:
  assumes "finish_all s = Inr s'"
  obtains s1 where "save_current_row s = Inr s1" "s' = s1\<lparr>ov_result := Some Accepted\<rparr>"
  using assms by (cases "save_current_row s") (auto simp: finish_all_def)

lemma ov_step_data:
  assumes "ov_step s e = Inr s'"
  shows "csv_data s' = csv_data s \<or> (\<exists>s1. save_current_row s = Inr s1 \<and> csv_data s' = csv_data s1)"
proof (cases e)
  case (SetCombo col a)
  with assms show ?thesis by (auto split: if_splits)
next
  case (OpenDetailed session)
  with assms show ?thesis by (auto dest: open_detailed_classification_fields)
next
  case NextRow
  with assms have "save_and_next_row s = Inr s'" by simp
  then show ?thesis
    by (cases rule: save_and_next_row_cases) (auto dest!: load_row_into_ui_fields simp: ov_report_def)
next
  case PreviousRow
  with assms have "save_and_previous_row s = Inr s'" by simp
  then show ?thesis
    by (cases rule: save_and_previous_row_cases) (auto dest!: load_row_into_ui_fields simp: ov_report_def)
next
  case FinishAll
  with assms have "finish_all s = Inr s'" by simp
  then show ?thesis by (cases rule: finish_all_cases) auto
next
  case CloseOverview
  with assms show ?thesis by auto
qed

lemma ov_step_ready:
  assumes "ov_ready s" "ov_step s e = Inr s'"
  shows "ov_ready s'"
proof (cases e)
  case (SetCombo col a)
  with assms show ?thesis
    by (auto simp: ov_ready_def ov_in_range_def current_row_def split: if_splits)
next
  case (OpenDetailed session)
  with assms(2) have "open_detailed_classification s session = Inr s'" by simp
  from open_detailed_classification_fields [OF this] assms(1) show ?thesis
    by (simp add: ov_ready_def ov_in_range_def current_row_def)
next
  case NextRow
  with assms have "save_and_next_row s = Inr s'" by simp
  then show ?thesis
  proof (cases rule: save_and_next_row_cases)
    case (move s1)
    from move(3) show ?thesis
    proof (cases rule: load_row_into_ui_cases)
      case out
      then show ?thesis by (auto simp: ov_ready_def ov_in_range_def)
    next
      case (inside q t p b)
      with move(3) show ?thesis by (intro load_row_into_ui_ready [OF move(3)]) simp_all
    qed
  next
    case (stay s1)
    with save_current_row_ready [OF stay(1)] show ?thesis
      by (simp add: ov_ready_def ov_in_range_def current_row_def ov_report_def)
  qed
next
  case PreviousRow
  with assms have "save_and_previous_row s = Inr s'" by simp
  then show ?thesis
  proof (cases rule: save_and_previous_row_cases)
    case (move s1)
    from move(3) show ?thesis
    proof (cases rule: load_row_into_ui_cases)
      case out
      then show ?thesis by (auto simp: ov_ready_def ov_in_range_def)
    next
      case (inside q t p b)
      with move(3) show ?thesis by (intro load_row_into_ui_ready [OF move(3)]) simp_all
    qed
  next
    case (stay s1)
    with save_current_row_ready [OF stay(1)] show ?thesis
      by (simp add: ov_ready_def ov_in_range_def current_row_def ov_report_def)
  qed
next
  case FinishAll
  with assms have "finish_all s = Inr s'" by simp
  then show ?thesis
  proof (cases rule: finish_all_cases)
    case (1 s1)
    with save_current_row_ready [OF 1(1)] show ?thesis
      by (simp add: ov_ready_def ov_in_range_def current_row_def)
  qed
next
  case CloseOverview
  with assms show ?thesis
    by (auto simp: ov_ready_def ov_in_range_def current_row_def)
qed

lemma ov_run_ready: "ov_ready s \<Longrightarrow> ov_run s es = Inr s' \<Longrightarrow> ov_ready s'"
proof (induction es arbitrary: s)
  case Nil
  then show ?case by simp
next
  case (Cons e es)
  show ?case
  proof (cases "ov_result s \<noteq> None")
    case True
    with Cons.prems show ?thesis by simp
  next
    case False
    with Cons.prems obtain s1 where "ov_step s e = Inr s1" "ov_run s1 es = Inr s'"
      by (auto split: sum.splits)
    with Cons.IH [of s1] ov_step_ready [OF Cons.prems(1)] show ?thesis by blast
  qed
qed


subsection \<open>The demonstration file\<close>

lemma append_missing_columns_REQUIRED:
  "append_missing_columns REQUIRED_COLUMNS = REQUIRED_COLUMNS"
  by code_simp

lemma is_correct_true_demo_row0: "is_correct_true demo_row0 = Inr False"
  by code_simp

lemma is_correct_true_demo_row1: "is_correct_true demo_row1 = Inr True"
  by code_simp

lemma demo_load:
  "load_csv MainWindow_init (str ''demo.csv'') (Inr demo_lines) =
     \<lparr>model = Some \<lparr>getDataList = [demo_row0, demo_row1], getHeaders = REQUIRED_COLUMNS\<rparr>,
      csv_file_path = Some (str ''demo.csv''), annotate_btn = True, save_btn = True,
      mw_messages = []\<rparr>"
  by code_simp


lemma demo_row0_texts:
  "row_get demo_row0 (str ''question'') [] = PyStr (str ''q1'')"
  "row_get demo_row0 (str ''true_answer'') [] = PyStr (str ''a1'')"
  "row_get demo_row0 (str ''predicted_answer_full'') [] = PyStr (str ''p1'')"
  by code_simp+

lemma demo_init: "RowOverviewWindow_init [demo_row0, demo_row1] 1 = Inr demo_window"
  by (simp add: RowOverviewWindow_init_def load_row_into_ui_in is_correct_true_demo_row0
        demo_row0_texts demo_window_def setPlainText_def)


subsection \<open>Combo boxes, committed rows and locked rows\<close>

lemma yes_no_cases: "yes_no v = str ''Yes'' \<or> yes_no v = str ''No''"
  by (auto simp: yes_no_def split: pyval.splits)

lemma combo_setCurrentText_yes_no [simp]: "combo_setCurrentText (yes_no v) x = yes_no v"
  using yes_no_cases [of v] by (auto simp: combo_setCurrentText_def)

lemma combo_setCurrentText_No [simp]: "combo_setCurrentText (str ''No'') x = str ''No''"
  by (simp add: combo_setCurrentText_def)

lemma fold_fun_upd_const:
  "fold (\<lambda>col ec. ec(col := g col)) cols ec c = (if c \<in> set cols then g c else ec c)"
  by (induction cols arbitrary: ec) auto

lemma lock_combos_apply:
  "lock_combos ec col =
     (if col \<in> set ERROR_COLUMNS then \<lparr>currentText = str ''No'', isEnabled = False\<rparr> else ec col)"
  by (simp add: lock_combos_def fold_fun_upd_const)

lemma show_combos_apply:
  "show_combos r ec col =
     (if col \<in> set ERROR_COLUMNS
      then \<lparr>currentText = yes_no (row_get r col []), isEnabled = True\<rparr> else ec col)"
  by (simp add: show_combos_def fold_fun_upd_const)

lemma save_current_row_content:
  assumes "save_current_row s = Inr s1" "ov_in_range s" "col \<in> set ERROR_COLUMNS"
  shows "map_of (csv_data s1 ! nat (current_index s)) (Some col) =
           Some (PyStr (if locked (current_row s) then str ''No'' else currentText (error_combos s col)))"
  using assms(1)
proof (cases rule: save_current_row_cases)
  case out
  with assms(2) show ?thesis by simp
next
  case (inside b)
  from inside(1) have "nat (current_index s) < length (csv_data s)"
    by (auto simp: ov_in_range_def)
  with inside assms(3) show ?thesis
    by (simp add: map_of_fold_update locked_def)
qed

lemma save_current_row_locked:
  assumes "save_current_row s = Inr s1" "j < length (csv_data s)"
  shows "is_correct_true (csv_data s1 ! j) = is_correct_true (csv_data s ! j)"
  using assms(1)
proof (cases rule: save_current_row_cases)
  case out
  then show ?thesis by simp
next
  case (inside b)
  with assms(2) show ?thesis
    by (cases "j = nat (current_index s)") (simp_all add: current_row_def is_correct_true_fold_update)
qed

lemma save_current_row_all_no:
  assumes "save_current_row s = Inr s1" "j < length (csv_data s)" "locked (csv_data s ! j)"
  shows "(all_categories_no (csv_data s ! j) \<or> (int j = current_index s)) \<longrightarrow>
         all_categories_no (csv_data s1 ! j)"
  using assms(1)
proof (cases rule: save_current_row_cases)
  case out
  with assms(2) show ?thesis by (auto simp: ov_in_range_def)
next
  case (inside b)
  show ?thesis
  proof (cases "j = nat (current_index s)")
    case True
    with inside assms(2,3) show ?thesis
      by (auto simp: all_categories_no_def map_of_fold_update locked_def current_row_def)
  next
    case False
    with inside assms(2) show ?thesis by (auto simp: ov_in_range_def)
  qed
qed

lemma ov_step_length: "ov_step s e = Inr s' \<Longrightarrow> length (csv_data s') = length (csv_data s)"
  by (drule ov_step_data) (auto dest: save_current_row_fields)

lemma ov_step_frame:
  "ov_step s e = Inr s' \<Longrightarrow> k \<notin> Some ` set ERROR_COLUMNS \<Longrightarrow>
   map_of (csv_data s' ! j) k = map_of (csv_data s ! j) k"
  by (drule ov_step_data) (auto dest: save_current_row_fields)

lemma ov_step_locked:
  "ov_step s e = Inr s' \<Longrightarrow> j < length (csv_data s) \<Longrightarrow> locked (csv_data s ! j) \<Longrightarrow>
   locked (csv_data s' ! j) \<and> (all_categories_no (csv_data s ! j) \<longrightarrow> all_categories_no (csv_data s' ! j))"
  by (drule ov_step_data) (auto simp: locked_def save_current_row_locked dest: save_current_row_all_no [unfolded locked_def])

lemma ov_run_frame:
  "ov_run s es = Inr s' \<Longrightarrow>
   length (csv_data s') = length (csv_data s) \<and>
   (\<forall>j k. k \<notin> Some ` set ERROR_COLUMNS \<longrightarrow> map_of (csv_data s' ! j) k = map_of (csv_data s ! j) k)"
proof (induction es arbitrary: s)
  case Nil
  then show ?case by simp
next
  case (Cons e es)
  show ?case
  proof (cases "ov_result s \<noteq> None")
    case True
    with Cons.prems show ?thesis by simp
  next
    case False
    with Cons.prems obtain s1 where s1: "ov_step s e = Inr s1" "ov_run s1 es = Inr s'"
      by (auto split: sum.splits)
    from Cons.IH [OF s1(2)] ov_step_length [OF s1(1)] ov_step_frame [OF s1(1)]
    show ?thesis by simp
  qed
qed

lemma ov_run_locked:
  "ov_run s es = Inr s' \<Longrightarrow> j < length (csv_data s) \<Longrightarrow> locked (csv_data s ! j) \<Longrightarrow>
   locked (csv_data s' ! j) \<and> (all_categories_no (csv_data s ! j) \<longrightarrow> all_categories_no (csv_data s' ! j))"
proof (induction es arbitrary: s)
  case Nil
  then show ?case by simp
next
  case (Cons e es)
  show ?case
  proof (cases "ov_result s \<noteq> None")
    case True
    with Cons.prems show ?thesis by simp
  next
    case False
    with Cons.prems obtain s1 where s1: "ov_step s e = Inr s1" "ov_run s1 es = Inr s'"
      by (auto split: sum.splits)
    from ov_step_locked [OF s1(1) Cons.prems(2,3)] ov_step_length [OF s1(1)] Cons.prems(2)
    have "j < length (csv_data s1)" "locked (csv_data s1 ! j)"
      "all_categories_no (csv_data s ! j) \<longrightarrow> all_categories_no (csv_data s1 ! j)" by simp_all
    with Cons.IH [OF s1(2)] show ?thesis by blast
  qed
qed


subsection \<open>The cursor: commit, bounds and frame\<close>

lemma demo_window_ready: "ov_ready demo_window"
  using demo_init by (rule ov_ready_init)

lemma demo_window_fields:
  "csv_data demo_window = [demo_row0, demo_row1]" "current_index demo_window = 0"
  "ov_result demo_window = None" "ov_messages demo_window = []"
  "ov_in_range demo_window" "current_row demo_window = demo_row0"
  by (simp_all add: demo_window_def ov_in_range_def current_row_def)

text \<open>
  C7. Committing the same Working Answers twice in succession to the same row gives the
  state that committing them once gives: a commit that has succeeded leaves the index and
  the Working Answers as they were, and a second commit changes nothing.
\<close>

theorem commit_idempotent:
  assumes "save_current_row s = Inr s1"
  shows "current_index s1 = current_index s \<and> error_combos s1 = error_combos s \<and>
         save_current_row s1 = Inr s1"
  using assms save_current_row_index [OF assms] save_current_row_idem [OF assms] by simp

theorem commit_idempotent_witness:
  "\<exists>s1. save_current_row demo_window = Inr s1 \<and> current_index s1 = 0 \<and>
        map_of (csv_data s1 ! 0) (Some (str ''Arithmetic'')) = Some (PyStr (str ''No'')) \<and>
        save_current_row s1 = Inr s1"
proof -
  from ov_ready_save [OF demo_window_ready]
  obtain s1 where s1: "save_current_row demo_window = Inr s1" by blast
  have "(str ''Arithmetic'') \<in> set ERROR_COLUMNS" by (simp add: ERROR_COLUMNS_def)
  from save_current_row_content [OF s1 demo_window_fields(5) this]
  have "map_of (csv_data s1 ! 0) (Some (str ''Arithmetic'')) = Some (PyStr (str ''No''))"
    by (simp add: demo_window_fields locked_def is_correct_true_demo_row0 demo_window_def
          show_combos_apply ERROR_COLUMNS_def yes_no_def row_get_def demo_row0_def)
  with commit_idempotent [OF s1] s1 show ?thesis
    by (auto simp: demo_window_fields)
qed


lemma demo_row1_texts:
  "row_get demo_row1 (str ''question'') [] = PyStr (str ''q2'')"
  "row_get demo_row1 (str ''true_answer'') [] = PyStr (str ''a2'')"
  "row_get demo_row1 (str ''predicted_answer_full'') [] = PyStr (str ''p2'')"
  by code_simp+

lemma demo_next:
  obtains s where "ov_run demo_window [NextRow] = Inr s" "current_index s = 1"
    "length (csv_data s) = 2" "ov_messages s = []" "csv_data s ! 1 = demo_row1"
    "map_of (csv_data s ! 0) (Some (str ''question'')) = Some (PyStr (str ''q1''))"
    "ov_result s = None"
proof -
  from ov_ready_save [OF demo_window_ready]
  obtain s1 where s1: "save_current_row demo_window = Inr s1" by blast
  note f = save_current_row_fields [OF s1] and i = save_current_row_index [OF s1]
  from f have d: "length (csv_data s1) = 2" "csv_data s1 ! 1 = demo_row1"
    by (simp_all add: demo_window_fields)
  have "Some (str ''question'') \<notin> Some ` set ERROR_COLUMNS" by (simp add: ERROR_COLUMNS_def)
  with f have q: "map_of (csv_data s1 ! 0) (Some (str ''question'')) = Some (PyStr (str ''q1''))"
    by (simp add: demo_window_fields demo_row0_def)
  define s where "s = s1\<lparr>current_index := 1, question_edit := str ''q2'', true_answer_edit := str ''a2'',
                     pred_answer_edit := str ''p2'',
                     error_combos := lock_combos (error_combos s1),
                     detail_btn := False\<rparr>"
  have "load_row_into_ui (s1\<lparr>current_index := 1\<rparr>) 1 = Inr s"
    using d by (simp add: load_row_into_ui_in demo_row1_texts is_correct_true_demo_row1 s_def
        setPlainText_def)
  with s1 i d have "ov_run demo_window [NextRow] = Inr s"
    by (simp add: save_and_next_row_def demo_window_fields)
  moreover have "current_index s = 1" "length (csv_data s) = 2" "ov_messages s = []"
    "csv_data s ! 1 = demo_row1" "map_of (csv_data s ! 0) (Some (str ''question'')) = Some (PyStr (str ''q1''))"
    "ov_result s = None"
    using d i q by (simp_all add: s_def demo_window_fields)
  ultimately show ?thesis by (rule that)
qed

text \<open>
  C5. Next Row at the last row and Previous Row at index 0 return normally, leave the index
  where it was and report the boundary, ``no more rows'' and ``no previous row''. This holds
  in every state in which the row under the cursor has a string in \<^verbatim>\<open>is_correct\<close>,
  and so in every state that the row overview reaches from its construction.
\<close>

theorem cursor_bounds:
  assumes "ov_ready s \<or>
           RowOverviewWindow_init data row_number = Inr s0 \<and> ov_run s0 events = Inr s"
  shows "(current_index s = int (length (csv_data s)) - 1 \<longrightarrow>
           (\<exists>s'. save_and_next_row s = Inr s' \<and> current_index s' = current_index s \<and>
                 ov_messages s' = ov_messages s @ [NoMoreRows])) \<and>
         (current_index s = 0 \<longrightarrow>
           (\<exists>s'. save_and_previous_row s = Inr s' \<and> current_index s' = current_index s \<and>
                 ov_messages s' = ov_messages s @ [AtFirstRow]))"
proof -
  from assms have "ov_ready s" by (blast intro: ov_ready_init ov_run_ready)
  then obtain s1 where s1: "save_current_row s = Inr s1" by (blast dest: ov_ready_save)
  note f = save_current_row_fields [OF s1] and i = save_current_row_index [OF s1]
  from s1 f i show ?thesis
    by (simp add: save_and_next_row_def save_and_previous_row_def ov_report_def)
qed

theorem cursor_bounds_witness:
  "(\<exists>s s'. ov_run demo_window [NextRow] = Inr s \<and> current_index s = 1 \<and>
       save_and_next_row s = Inr s' \<and> current_index s' = 1 \<and> ov_messages s' = [NoMoreRows]) \<and>
   (\<exists>s'. save_and_previous_row demo_window = Inr s' \<and> current_index s' = 0 \<and>
       ov_messages s' = [AtFirstRow])"
proof
  obtain s where s: "ov_run demo_window [NextRow] = Inr s" "current_index s = 1"
    "length (csv_data s) = 2" "ov_messages s = []"
    by (rule demo_next)
  from demo_init s(1)
  have "ov_ready s \<or> RowOverviewWindow_init [demo_row0, demo_row1] 1 = Inr demo_window \<and>
          ov_run demo_window [NextRow] = Inr s" by blast
  from cursor_bounds [OF this] s
  show "\<exists>s s'. ov_run demo_window [NextRow] = Inr s \<and> current_index s = 1 \<and>
       save_and_next_row s = Inr s' \<and> current_index s' = 1 \<and> ov_messages s' = [NoMoreRows]"
    by auto
next
  from demo_window_ready
  have "ov_ready demo_window \<or>
          RowOverviewWindow_init [demo_row0, demo_row1] 1 = Inr demo_window \<and>
          ov_run demo_window [] = Inr demo_window" by blast
  from cursor_bounds [OF this]
  show "\<exists>s'. save_and_previous_row demo_window = Inr s' \<and> current_index s' = 0 \<and>
       ov_messages s' = [AtFirstRow]"
    by (simp add: demo_window_fields)
qed

text \<open>
  C8. Navigation at a boundary still commits. The commit returns normally and writes into
  each category field of the current row the Working Answer (\<open>No\<close> when the row is
  locked); Next Row at the last row gives the committed state with the report ``no more
  rows'' and the dialog closed with the result \<open>Rejected\<close>, where Finish All would give
  \<open>Accepted\<close>; Previous Row at index 0 gives the committed state with the report ``no
  previous row'', the dialog still open. This holds in every state in which the row under
  the cursor has a string in \<^verbatim>\<open>is_correct\<close>, and so in every state that the row
  overview reaches from its construction.
\<close>

theorem boundary_navigation_commits:
  assumes "ov_ready s \<or>
           RowOverviewWindow_init data row_number = Inr s0 \<and> ov_run s0 events = Inr s"
  shows "\<exists>s1. save_current_row s = Inr s1 \<and>
           (ov_in_range s \<longrightarrow>
              (\<forall>col \<in> set ERROR_COLUMNS.
                 map_of (csv_data s1 ! nat (current_index s)) (Some col) =
                   Some (PyStr (if locked (current_row s) then str ''No''
                                else currentText (error_combos s col))))) \<and>
           (current_index s = int (length (csv_data s)) - 1 \<longrightarrow>
              save_and_next_row s =
                Inr (s1\<lparr>ov_messages := ov_messages s @ [NoMoreRows], ov_result := Some Rejected\<rparr>)) \<and>
           (current_index s = 0 \<longrightarrow>
              save_and_previous_row s = Inr (s1\<lparr>ov_messages := ov_messages s @ [AtFirstRow]\<rparr>)) \<and>
           finish_all s = Inr (s1\<lparr>ov_result := Some Accepted\<rparr>)"
proof -
  from assms have "ov_ready s" by (blast intro: ov_ready_init ov_run_ready)
  then obtain s1 where s1: "save_current_row s = Inr s1" by (blast dest: ov_ready_save)
  note f = save_current_row_fields [OF s1] and i = save_current_row_index [OF s1]
  have "\<forall>col \<in> set ERROR_COLUMNS.
          map_of (csv_data s1 ! nat (current_index s)) (Some col) =
            Some (PyStr (if locked (current_row s) then str ''No''
                         else currentText (error_combos s col)))" if "ov_in_range s"
    using save_current_row_content [OF s1 that] by blast
  moreover from s1 f i have "current_index s = int (length (csv_data s)) - 1 \<longrightarrow>
      save_and_next_row s =
        Inr (s1\<lparr>ov_messages := ov_messages s @ [NoMoreRows], ov_result := Some Rejected\<rparr>)"
    by (simp add: save_and_next_row_def ov_report_def)
  moreover from s1 f i have "current_index s = 0 \<longrightarrow>
      save_and_previous_row s = Inr (s1\<lparr>ov_messages := ov_messages s @ [AtFirstRow]\<rparr>)"
    by (simp add: save_and_previous_row_def ov_report_def)
  moreover from s1 have "finish_all s = Inr (s1\<lparr>ov_result := Some Accepted\<rparr>)"
    by (simp add: finish_all_def)
  ultimately show ?thesis using s1 by blast
qed

theorem boundary_navigation_commits_witness:
  "(\<exists>s1. save_current_row demo_window = Inr s1 \<and>
      map_of (csv_data s1 ! 0) (Some (str ''Arithmetic'')) = Some (PyStr (str ''No'')) \<and>
      save_and_previous_row demo_window = Inr (s1\<lparr>ov_messages := [AtFirstRow]\<rparr>)) \<and>
   (\<exists>s s1. ov_run demo_window [NextRow] = Inr s \<and> save_current_row s = Inr s1 \<and>
      save_and_next_row s =
        Inr (s1\<lparr>ov_messages := [NoMoreRows], ov_result := Some Rejected\<rparr>))"
proof
  from demo_window_ready
  have "ov_ready demo_window \<or>
          RowOverviewWindow_init [demo_row0, demo_row1] 1 = Inr demo_window \<and>
          ov_run demo_window [] = Inr demo_window" by blast
  from boundary_navigation_commits [OF this]
  obtain s1 where s1: "save_current_row demo_window = Inr s1"
    and c: "\<forall>col \<in> set ERROR_COLUMNS.
                 map_of (csv_data s1 ! 0) (Some col) =
                   Some (PyStr (if locked demo_row0 then str ''No''
                                else currentText (error_combos demo_window col)))"
    and p: "save_and_previous_row demo_window = Inr (s1\<lparr>ov_messages := [AtFirstRow]\<rparr>)"
    by (auto simp: demo_window_fields)
  have "(str ''Arithmetic'') \<in> set ERROR_COLUMNS" by (simp add: ERROR_COLUMNS_def)
  with c have "map_of (csv_data s1 ! 0) (Some (str ''Arithmetic'')) = Some (PyStr (str ''No''))"
    by (simp add: locked_def is_correct_true_demo_row0 demo_window_def
          show_combos_apply yes_no_def row_get_def demo_row0_def)
  with s1 p show "\<exists>s1. save_current_row demo_window = Inr s1 \<and>
      map_of (csv_data s1 ! 0) (Some (str ''Arithmetic'')) = Some (PyStr (str ''No'')) \<and>
      save_and_previous_row demo_window = Inr (s1\<lparr>ov_messages := [AtFirstRow]\<rparr>)" by blast
next
  obtain s where s: "ov_run demo_window [NextRow] = Inr s" "current_index s = 1"
    "length (csv_data s) = 2" "ov_messages s = []"
    by (rule demo_next)
  from demo_init s(1)
  have "ov_ready s \<or> RowOverviewWindow_init [demo_row0, demo_row1] 1 = Inr demo_window \<and>
          ov_run demo_window [NextRow] = Inr s" by blast
  from boundary_navigation_commits [OF this] s
  show "\<exists>s s1. ov_run demo_window [NextRow] = Inr s \<and> save_current_row s = Inr s1 \<and>
      save_and_next_row s =
        Inr (s1\<lparr>ov_messages := [NoMoreRows], ov_result := Some Rejected\<rparr>)"
    by auto
qed


text \<open>
  C9. The commit writes only the nine category fields of the current row: every other row is
  the same row afterwards, every other key of the current row (the four fixed fields, any
  further column, the key \<open>None\<close>) maps to what it mapped to, and nothing else of the
  window changes. Hence after any run of events every row still has, under every key that
  is not a category, the value it had before.
\<close>

theorem commit_frame:
  "(\<forall>s1. save_current_row s = Inr s1 \<longrightarrow>
      s1 = s\<lparr>csv_data := csv_data s1\<rparr> \<and>
      length (csv_data s1) = length (csv_data s) \<and>
      (\<forall>j. j \<noteq> nat (current_index s) \<longrightarrow> csv_data s1 ! j = csv_data s ! j) \<and>
      (\<forall>k. k \<notin> Some ` set ERROR_COLUMNS \<longrightarrow>
           map_of (csv_data s1 ! nat (current_index s)) k = map_of (csv_data s ! nat (current_index s)) k)) \<and>
   (\<forall>events s'. ov_run s events = Inr s' \<longrightarrow>
      length (csv_data s') = length (csv_data s) \<and>
      (\<forall>j k. k \<notin> Some ` set ERROR_COLUMNS \<longrightarrow>
           map_of (csv_data s' ! j) k = map_of (csv_data s ! j) k))"
proof (intro conjI allI impI)
  fix s1 assume "save_current_row s = Inr s1"
  note f = save_current_row_fields [OF this]
  from f show "s1 = s\<lparr>csv_data := csv_data s1\<rparr>" by blast
  from f show "length (csv_data s1) = length (csv_data s)" by blast
  { fix j assume "j \<noteq> nat (current_index s)"
    with f show "csv_data s1 ! j = csv_data s ! j" by blast }
  { fix k :: "pystr option" assume "k \<notin> Some ` set ERROR_COLUMNS"
    with f show "map_of (csv_data s1 ! nat (current_index s)) k =
                 map_of (csv_data s ! nat (current_index s)) k" by blast }
next
  fix events s' assume r: "ov_run s events = Inr s'"
  from ov_run_frame [OF r] show "length (csv_data s') = length (csv_data s)" by blast
  fix j and k :: "pystr option" assume "k \<notin> Some ` set ERROR_COLUMNS"
  with ov_run_frame [OF r] show "map_of (csv_data s' ! j) k = map_of (csv_data s ! j) k" by blast
qed

theorem commit_frame_witness:
  "\<exists>s'. ov_run demo_window [SetCombo (str ''Grammar'') AnswerYes, FinishAll] = Inr s' \<and>
        length (csv_data s') = 2 \<and>
        map_of (csv_data s' ! 0) (Some (str ''question'')) = Some (PyStr (str ''q1'')) \<and>
        map_of (csv_data s' ! 0) (Some (str ''is_correct'')) = Some (PyStr (str ''False'')) \<and>
        map_of (csv_data s' ! 1) (Some (str ''is_correct'')) = Some (PyStr demo_is_correct)"
proof -
  let ?w = "demo_window\<lparr>error_combos := (error_combos demo_window)
                ((str ''Grammar'') := (error_combos demo_window (str ''Grammar''))\<lparr>currentText := (str ''Yes'')\<rparr>)\<rparr>"
  have g: "(str ''Grammar'') \<in> set ERROR_COLUMNS" by (simp add: ERROR_COLUMNS_def)
  have e: "isEnabled (error_combos demo_window (str ''Grammar''))"
    by (simp add: demo_window_def show_combos_apply g)
  have st: "ov_step demo_window (SetCombo (str ''Grammar'') AnswerYes) = Inr ?w"
    using g e by simp
  from ov_step_ready [OF demo_window_ready st] have "ov_ready ?w" .
  then obtain s1 where s1: "save_current_row ?w = Inr s1" by (blast dest: ov_ready_save)
  have run: "ov_run demo_window [SetCombo (str ''Grammar'') AnswerYes, FinishAll] =
               Inr (s1\<lparr>ov_result := Some Accepted\<rparr>)"
    using g e s1 by (simp add: demo_window_fields finish_all_def)
  have k: "Some (str ''question'') \<notin> Some ` set ERROR_COLUMNS"
       "Some (str ''is_correct'') \<notin> Some ` set ERROR_COLUMNS"
    by (simp_all add: ERROR_COLUMNS_def)
  from commit_frame [of demo_window] run k
  have "length (csv_data (s1\<lparr>ov_result := Some Accepted\<rparr>)) = length (csv_data demo_window)"
    "map_of (csv_data (s1\<lparr>ov_result := Some Accepted\<rparr>) ! 0) (Some (str ''question'')) =
       map_of (csv_data demo_window ! 0) (Some (str ''question''))"
    "map_of (csv_data (s1\<lparr>ov_result := Some Accepted\<rparr>) ! 0) (Some (str ''is_correct'')) =
       map_of (csv_data demo_window ! 0) (Some (str ''is_correct''))"
    "map_of (csv_data (s1\<lparr>ov_result := Some Accepted\<rparr>) ! 1) (Some (str ''is_correct'')) =
       map_of (csv_data demo_window ! 1) (Some (str ''is_correct''))"
    by blast+
  with run show ?thesis
    by (simp add: demo_window_fields demo_row0_def demo_row1_def)
qed


subsection \<open>The drill-down seen from the cursor\<close>

lemma length_ERROR_COLUMNS: "length ERROR_COLUMNS = 9"
  by (simp add: ERROR_COLUMNS_def)

lemma dc_init_result: "dc_result (DetailedClassificationWindow_init seed) = None"
  by (simp add: DetailedClassificationWindow_init_def load_current_question_def dc_in_range_def
        length_ERROR_COLUMNS Let_def)

text \<open>
  C10. When the drill-down ends in any way other than \<open>Accepted\<close>,
  \<^verbatim>\<open>open_detailed_classification\<close> returns the window as it was: where the dialog
  was opened at all the state is unchanged, and in no case are the Working Answers or the
  rows touched.
\<close>

theorem rejected_drilldown_keeps_answers:
  assumes "dc_result (dc_exec (DetailedClassificationWindow_init
                                 (Some (current_answers (error_combos s)))) session) \<noteq> Some Accepted"
  shows "open_detailed_classification s session =
           (if \<not> ov_in_range s then Inr s
            else case is_correct_true (current_row s) of
                   Inl e \<Rightarrow> Inl e
                 | Inr is_correct \<Rightarrow> Inr (if is_correct then ov_report Skipped s else s)) \<and>
         (\<forall>s'. open_detailed_classification s session = Inr s' \<longrightarrow>
               error_combos s' = error_combos s \<and> csv_data s' = csv_data s)"
proof -
  have eq: "open_detailed_classification s session =
           (if \<not> ov_in_range s then Inr s
            else case is_correct_true (current_row s) of
                   Inl e \<Rightarrow> Inl e
                 | Inr is_correct \<Rightarrow> Inr (if is_correct then ov_report Skipped s else s))"
  proof (cases "ov_in_range s")
    case False
    then show ?thesis
      by (simp add: open_detailed_classification_def ov_in_range_def not_le not_less)
  next
    case True
    then have r: "\<not> (current_index s < 0 \<or> int (length (csv_data s)) \<le> current_index s)"
      by (auto simp: ov_in_range_def)
    show ?thesis
    proof (cases "is_correct_true (current_row s)")
      case (Inl e)
      with True r show ?thesis by (simp add: open_detailed_classification_def)
    next
      case (Inr b)
      with True r assms show ?thesis
        by (cases b) (simp_all add: open_detailed_classification_def Let_def)
    qed
  qed
  have "error_combos s' = error_combos s \<and> csv_data s' = csv_data s"
    if "open_detailed_classification s session = Inr s'" for s'
    using that unfolding eq
    by (cases "ov_in_range s"; cases "is_correct_true (current_row s)")
       (auto simp: ov_report_def split: if_splits)
  with eq show ?thesis by blast
qed

theorem rejected_drilldown_keeps_answers_witness:
  "dc_result (dc_exec (DetailedClassificationWindow_init
                         (Some (current_answers (error_combos demo_window))))
                ([Choose AnswerYes], CloseDialog)) = Some Rejected \<and>
   open_detailed_classification demo_window ([Choose AnswerYes], CloseDialog) = Inr demo_window"
proof -
  let ?w = "DetailedClassificationWindow_init (Some (current_answers (error_combos demo_window)))"
  have "dc_run ?w [Choose AnswerYes] = ?w\<lparr>answer_combo := (str ''Yes'')\<rparr>"
    by (simp add: dc_init_result)
  then have r: "dc_result (dc_exec ?w ([Choose AnswerYes], CloseDialog)) = Some Rejected"
    by (simp add: dc_exec_def dc_init_result)
  then have n: "dc_result (dc_exec ?w ([Choose AnswerYes], CloseDialog)) \<noteq> Some Accepted"
    by simp
  have "open_detailed_classification demo_window ([Choose AnswerYes], CloseDialog) = Inr demo_window"
    unfolding rejected_drilldown_keeps_answers [OF n, THEN conjunct1]
    by (simp add: demo_window_fields is_correct_true_demo_row0)
  with r show ?thesis by blast
qed


lemma open_detailed_classification_locked:
  assumes "ov_in_range s" "locked (current_row s)"
  shows "open_detailed_classification s session = Inr (ov_report Skipped s)"
  using assms
  by (auto simp: open_detailed_classification_def ov_in_range_def locked_def)

lemma load_row_into_ui_locked:
  assumes "load_row_into_ui s (int j) = Inr s'" "j < length (csv_data s)" "locked (csv_data s ! j)"
  shows "error_combos s' = lock_combos (error_combos s) \<and> \<not> detail_btn s' \<and> current_index s' = int j"
  using load_row_into_ui_fields [OF assms(1)] assms(2,3)
  by (auto simp: locked_def)

lemma ov_step_commits_locked:
  assumes "ov_step s e = Inr s'" "e = NextRow \<or> e = PreviousRow \<or> e = FinishAll"
    and "j < length (csv_data s)" "locked (csv_data s ! j)" "current_index s = int j"
  shows "all_categories_no (csv_data s' ! j)"
proof -
  have "\<exists>s1. save_current_row s = Inr s1 \<and> csv_data s' = csv_data s1"
    using assms(2)
  proof (elim disjE)
    assume "e = NextRow"
    with assms(1) have "save_and_next_row s = Inr s'" by simp
    then show ?thesis
      by (cases rule: save_and_next_row_cases) (auto dest!: load_row_into_ui_fields simp: ov_report_def)
  next
    assume "e = PreviousRow"
    with assms(1) have "save_and_previous_row s = Inr s'" by simp
    then show ?thesis
      by (cases rule: save_and_previous_row_cases) (auto dest!: load_row_into_ui_fields simp: ov_report_def)
  next
    assume "e = FinishAll"
    with assms(1) have "finish_all s = Inr s'" by simp
    then show ?thesis by (cases rule: finish_all_cases) auto
  qed
  then obtain s1 where s1: "save_current_row s = Inr s1" "csv_data s' = csv_data s1" by blast
  from save_current_row_all_no [OF s1(1) assms(3,4)] assms(5) s1(2) show ?thesis by simp
qed

text \<open>
  C3, as amended. For a row whose \<^verbatim>\<open>is_correct\<close>, trimmed and in lower case, is
  \<open>true\<close>: when the cursor loads the row, each of the nine Working Answers is \<open>No\<close> with
  its combo box disabled, and the drill-down button is disabled; with the cursor on the
  row, opening the drill-down is refused with the skip notice and nothing else changes;
  every commit of the row (the commit itself, which returns, and Next Row, Previous Row or
  Finish All with the cursor on the row) writes \<open>No\<close> into all nine category fields; the row
  stays locked under every run of events, and once its nine category fields read \<open>No\<close>
  they read \<open>No\<close> after every run of events. Hence from the first commit of the row on,
  whatever was done before it and whatever is done after it, all nine category fields of
  the row read \<open>No\<close>.
\<close>

theorem locked_row_invariant:
  assumes "j < length (csv_data s)" and "locked (csv_data s ! j)"
  shows "(\<forall>s'. load_row_into_ui s (int j) = Inr s' \<longrightarrow>
            (\<forall>col \<in> set ERROR_COLUMNS.
               error_combos s' col = \<lparr>currentText = str ''No'', isEnabled = False\<rparr>) \<and>
            \<not> detail_btn s') \<and>
         (current_index s = int j \<longrightarrow>
            open_detailed_classification s session = Inr (ov_report Skipped s) \<and>
            (\<exists>s1. save_current_row s = Inr s1 \<and> all_categories_no (csv_data s1 ! j) \<and>
                  finish_all s = Inr (s1\<lparr>ov_result := Some Accepted\<rparr>)) \<and>
            (\<forall>e s'. (e = NextRow \<or> e = PreviousRow \<or> e = FinishAll) \<and> ov_step s e = Inr s' \<longrightarrow>
                  all_categories_no (csv_data s' ! j))) \<and>
         (\<forall>events s'. ov_run s events = Inr s' \<longrightarrow>
            locked (csv_data s' ! j) \<and>
            (all_categories_no (csv_data s ! j) \<longrightarrow> all_categories_no (csv_data s' ! j))) \<and>
         (\<forall>before e after s1 s2 s3.
            ov_run s before = Inr s1 \<and> current_index s1 = int j \<and>
            (e = NextRow \<or> e = PreviousRow \<or> e = FinishAll) \<and> ov_step s1 e = Inr s2 \<and>
            ov_run s2 after = Inr s3 \<longrightarrow>
            all_categories_no (csv_data s3 ! j))"
proof (intro conjI allI impI)
  fix s' assume l: "load_row_into_ui s (int j) = Inr s'"
  from load_row_into_ui_locked [OF l assms]
  show "\<forall>col \<in> set ERROR_COLUMNS. error_combos s' col = \<lparr>currentText = str ''No'', isEnabled = False\<rparr>"
    and "\<not> detail_btn s'"
    by (simp_all add: lock_combos_apply)
next
  assume c: "current_index s = int j"
  with assms have r: "ov_in_range s" "locked (current_row s)"
    by (simp_all add: ov_in_range_def current_row_def)
  from r show "open_detailed_classification s session = Inr (ov_report Skipped s)"
    by (rule open_detailed_classification_locked)
  from r have "ov_ready s" by (simp add: ov_ready_def locked_def)
  then obtain s1 where s1: "save_current_row s = Inr s1" by (blast dest: ov_ready_save)
  from save_current_row_all_no [OF s1 assms] c have "all_categories_no (csv_data s1 ! j)" by simp
  moreover from s1 have "finish_all s = Inr (s1\<lparr>ov_result := Some Accepted\<rparr>)"
    by (simp add: finish_all_def)
  ultimately show "\<exists>s1. save_current_row s = Inr s1 \<and> all_categories_no (csv_data s1 ! j) \<and>
                        finish_all s = Inr (s1\<lparr>ov_result := Some Accepted\<rparr>)"
    using s1 by blast
  fix e s'
  assume "(e = NextRow \<or> e = PreviousRow \<or> e = FinishAll) \<and> ov_step s e = Inr s'"
  then show "all_categories_no (csv_data s' ! j)"
    using assms c by (blast intro: ov_step_commits_locked)
next
  fix events s' assume r: "ov_run s events = Inr s'"
  from ov_run_locked [OF r assms] show "locked (csv_data s' ! j)" by blast
  assume "all_categories_no (csv_data s ! j)"
  with ov_run_locked [OF r assms] show "all_categories_no (csv_data s' ! j)" by blast
next
  fix before e after s1 s2 s3
  assume a: "ov_run s before = Inr s1 \<and> current_index s1 = int j \<and>
             (e = NextRow \<or> e = PreviousRow \<or> e = FinishAll) \<and> ov_step s1 e = Inr s2 \<and>
             ov_run s2 after = Inr s3"
  then have r1: "ov_run s before = Inr s1" and c: "current_index s1 = int j"
    and e: "e = NextRow \<or> e = PreviousRow \<or> e = FinishAll" and st: "ov_step s1 e = Inr s2"
    and r2: "ov_run s2 after = Inr s3" by simp_all
  from ov_run_frame [OF r1] ov_run_locked [OF r1 assms] assms(1)
  have j1: "j < length (csv_data s1)" "locked (csv_data s1 ! j)" by simp_all
  from ov_step_commits_locked [OF st e j1 c] have n2: "all_categories_no (csv_data s2 ! j)" .
  from ov_step_length [OF st] ov_step_locked [OF st j1] j1(1)
  have j2: "j < length (csv_data s2)" "locked (csv_data s2 ! j)" by simp_all
  from ov_run_locked [OF r2 j2] n2 show "all_categories_no (csv_data s3 ! j)" by blast
qed

lemma locked_demo_row1: "locked demo_row1"
  by (simp add: locked_def is_correct_true_demo_row1)

theorem locked_row_invariant_witness:
  "\<exists>s s1. ov_run demo_window [NextRow] = Inr s \<and> current_index s = 1 \<and>
      locked (csv_data s ! 1) \<and>
      map_of (csv_data s ! 1) (Some (str ''Grammar'')) = Some (PyStr (str ''Yes'')) \<and>
      open_detailed_classification s ([], PressFinish) = Inr (ov_report Skipped s) \<and>
      save_current_row s = Inr s1 \<and> all_categories_no (csv_data s1 ! 1) \<and>
      ov_step s FinishAll = Inr (s1\<lparr>ov_result := Some Accepted\<rparr>) \<and>
      all_categories_no (csv_data (s1\<lparr>ov_result := Some Accepted\<rparr>) ! 1) \<and>
      ov_run (s1\<lparr>ov_result := Some Accepted\<rparr>) [PreviousRow] = Inr (s1\<lparr>ov_result := Some Accepted\<rparr>)"
proof -
  obtain s where s: "ov_run demo_window [NextRow] = Inr s" "current_index s = 1"
    "length (csv_data s) = 2" "csv_data s ! 1 = demo_row1" "ov_result s = None"
    by (rule demo_next)
  have j: "1 < length (csv_data s)" "locked (csv_data s ! 1)"
    using s by (simp_all add: locked_demo_row1)
  have g: "map_of (csv_data s ! 1) (Some (str ''Grammar'')) = Some (PyStr (str ''Yes''))"
    using s by (simp add: demo_row1_def)
  from locked_row_invariant [OF j, of "([], PressFinish)"] s(2)
  obtain s1 where o: "open_detailed_classification s ([], PressFinish) = Inr (ov_report Skipped s)"
    and s1: "save_current_row s = Inr s1" "all_categories_no (csv_data s1 ! 1)"
      "finish_all s = Inr (s1\<lparr>ov_result := Some Accepted\<rparr>)"
    by auto
  from s1(3) have f: "ov_step s FinishAll = Inr (s1\<lparr>ov_result := Some Accepted\<rparr>)" by simp
  have e: "ov_run s [] = Inr s" by simp
  have r: "ov_run (s1\<lparr>ov_result := Some Accepted\<rparr>) [PreviousRow] =
             Inr (s1\<lparr>ov_result := Some Accepted\<rparr>)" by simp
  have "ov_run s [] = Inr s \<and> current_index s = int 1 \<and>
        (FinishAll = NextRow \<or> FinishAll = PreviousRow \<or> FinishAll = FinishAll) \<and>
        ov_step s FinishAll = Inr (s1\<lparr>ov_result := Some Accepted\<rparr>) \<and>
        ov_run (s1\<lparr>ov_result := Some Accepted\<rparr>) [PreviousRow] =
          Inr (s1\<lparr>ov_result := Some Accepted\<rparr>)"
    using e s(2) f r by simp
  with locked_row_invariant [OF j, of "([], PressFinish)"]
  have "all_categories_no (csv_data (s1\<lparr>ov_result := Some Accepted\<rparr>) ! 1)" by blast
  with s j g o s1 f r show ?thesis by blast
qed

text \<open>
  C3 as stated fails: loading the demonstration file and pressing Finish All on the first
  row leaves the second row, which is locked, with \<open>Yes\<close> in its \<open>Grammar\<close> field.
\<close>

theorem locked_row_counterexample:
  "\<not> isl (annotate_rows (load_csv MainWindow_init (str ''demo.csv'') (Inr demo_lines)) [FinishAll]) \<and>
   locked (getDataList (the (model (projr
      (annotate_rows (load_csv MainWindow_init (str ''demo.csv'') (Inr demo_lines)) [FinishAll])))) ! 1) \<and>
   map_of (getDataList (the (model (projr
      (annotate_rows (load_csv MainWindow_init (str ''demo.csv'') (Inr demo_lines)) [FinishAll])))) ! 1)
     (Some (str ''Grammar'')) = Some (PyStr (str ''Yes''))"
proof -
  from ov_ready_save [OF demo_window_ready]
  obtain s1 where s1: "save_current_row demo_window = Inr s1" by blast
  from save_current_row_fields [OF s1] have d: "csv_data s1 ! 1 = demo_row1"
    by (simp add: demo_window_fields)
  have "annotate_rows (load_csv MainWindow_init (str ''demo.csv'') (Inr demo_lines)) [FinishAll] =
          Inr ((load_csv MainWindow_init (str ''demo.csv'') (Inr demo_lines))
                 \<lparr>model := Some \<lparr>getDataList = csv_data s1, getHeaders = REQUIRED_COLUMNS\<rparr>\<rparr>)"
    using s1 by (simp add: annotate_rows_def demo_load demo_init demo_window_fields finish_all_def)
  then show ?thesis
    using d by (simp add: locked_demo_row1) (simp add: demo_row1_def)
qed


subsection \<open>The drill-down sequencer\<close>

lemma distinct_ERROR_COLUMNS: "distinct ERROR_COLUMNS"
  by (simp add: ERROR_COLUMNS_def)

lemma combo_setCurrentText_item:
  "v \<in> {(str ''Yes''), (str ''No'')} \<Longrightarrow> combo_setCurrentText v x = v"
  by (auto simp: combo_setCurrentText_def)

lemma load_current_question_in:
  assumes "dc_in_range w"
  shows "\<exists>v \<in> {(str ''Yes''), (str ''No'')}. load_current_question w = w\<lparr>answer_combo := v\<rparr>"
proof -
  define val where "val = (case map_of (responses w) (dc_err_key w) of None \<Rightarrow> str ''No'' | Some v \<Rightarrow> v)"
  define val' where "val' = (if val \<notin> set [str ''Yes'', str ''No''] then str ''No'' else val)"
  have v: "val' \<in> {(str ''Yes''), (str ''No'')}" by (auto simp: val'_def)
  have "load_current_question w = w\<lparr>answer_combo := combo_setCurrentText val' (answer_combo w)\<rparr>"
    using assms by (simp add: load_current_question_def val_def val'_def Let_def)
  with v show ?thesis by (auto simp: combo_setCurrentText_item)
qed

lemma dc_inv_load_current_question:
  assumes "dc_inv d w" "dc_result w = None"
  shows "dc_inv d (load_current_question w)"
proof -
  from assms have "dc_in_range w" by (simp add: dc_inv_def dc_in_range_def length_ERROR_COLUMNS)
  from load_current_question_in [OF this] obtain v where
    "v \<in> {(str ''Yes''), (str ''No'')}" "load_current_question w = w\<lparr>answer_combo := v\<rparr>" by blast
  with assms(1) show ?thesis by (auto simp: dc_inv_def)
qed

lemma dc_inv_init: "dc_inv (seed_responses seed) (DetailedClassificationWindow_init seed)"
proof -
  let ?w0 = "\<lparr>responses = seed_responses seed, error_keys = ERROR_COLUMNS, current_idx = 0,
              answer_combo = str ''No'', dc_result = None, dc_messages = []\<rparr>"
  have "dc_inv (seed_responses seed) ?w0" by (simp add: dc_inv_def)
  then have "dc_inv (seed_responses seed) (load_current_question ?w0)"
    by (rule dc_inv_load_current_question) simp
  then show ?thesis by (simp add: DetailedClassificationWindow_init_def seed_responses_def)
qed

text \<open>Recording the answer of the current category.\<close>

lemma record_answer_inv:
  assumes "dc_inv d w" "dc_result w = None"
  shows "record_answer w =
           w\<lparr>responses := AList.update (ERROR_COLUMNS ! nat (current_idx w)) (answer_combo w) (responses w)\<rparr>"
    and "nat (current_idx w) < length ERROR_COLUMNS"
  using assms
  by (auto simp: record_answer_def dc_inv_def dc_in_range_def dc_err_key_def length_ERROR_COLUMNS)

lemma recorded_frame:
  assumes "dc_inv d w" "dc_result w = None"
  defines "rs \<equiv> AList.update (ERROR_COLUMNS ! nat (current_idx w)) (answer_combo w) (responses w)"
  shows "\<forall>c. c \<notin> set (take (nat (current_idx w + 1)) ERROR_COLUMNS) \<longrightarrow> map_of rs c = map_of d c"
    and "\<forall>c \<in> set (take (nat (current_idx w + 1)) ERROR_COLUMNS). map_of rs c \<in> {Some (str ''Yes''), Some (str ''No'')}"
proof -
  from assms(1,2) have n: "nat (current_idx w) < length ERROR_COLUMNS" "0 \<le> current_idx w"
    by (auto simp: dc_inv_def length_ERROR_COLUMNS)
  then have t: "take (nat (current_idx w + 1)) ERROR_COLUMNS =
                take (nat (current_idx w)) ERROR_COLUMNS @ [ERROR_COLUMNS ! nat (current_idx w)]"
    by (simp add: nat_add_distrib take_Suc_conv_app_nth)
  from assms(1) show "\<forall>c. c \<notin> set (take (nat (current_idx w + 1)) ERROR_COLUMNS) \<longrightarrow> map_of rs c = map_of d c"
    unfolding t by (auto simp: rs_def update_conv' dc_inv_def)
  from assms(1) show "\<forall>c \<in> set (take (nat (current_idx w + 1)) ERROR_COLUMNS). map_of rs c \<in> {Some (str ''Yes''), Some (str ''No'')}"
    unfolding t by (auto simp: rs_def update_conv' dc_inv_def)
qed

lemma dc_inv_advance:
  assumes "dc_inv d w" "dc_result w = None"
    "r = None \<and> current_idx w + 1 < 9 \<or> r = Some Accepted \<and> current_idx w + 1 = 9"
  shows "dc_inv d (w\<lparr>responses := AList.update (ERROR_COLUMNS ! nat (current_idx w)) (answer_combo w) (responses w),
                     current_idx := current_idx w + 1, dc_messages := m, dc_result := r\<rparr>)"
proof -
  note f = recorded_frame [OF assms(1,2)]
  from assms(1,2) have a: "0 \<le> current_idx w + 1"
    "error_keys w = ERROR_COLUMNS" "answer_combo w \<in> {(str ''Yes''), (str ''No'')}"
    by (auto simp: dc_inv_def)
  show ?thesis
    unfolding dc_inv_def using a f assms(3) by auto
qed

lemma dc_inv_next_question:
  assumes "dc_inv d w" "dc_result w = None"
  shows "dc_inv d (next_question w)"
proof -
  note r = record_answer_inv [OF assms]
  from assms(1) have k: "error_keys w = ERROR_COLUMNS" by (simp add: dc_inv_def)
  show ?thesis
  proof (cases "current_idx w + 1 \<ge> 9")
    case True
    have "dc_inv d (w\<lparr>responses := AList.update (ERROR_COLUMNS ! nat (current_idx w)) (answer_combo w) (responses w),
                     current_idx := current_idx w + 1, dc_messages := dc_messages w @ [AllAnswered],
                     dc_result := Some Accepted\<rparr>)"
      using assms True by (intro dc_inv_advance) (auto simp: dc_inv_def)
    with True k r(1) show ?thesis
      by (simp add: next_question_def Let_def length_ERROR_COLUMNS)
  next
    case False
    let ?w2 = "w\<lparr>responses := AList.update (ERROR_COLUMNS ! nat (current_idx w)) (answer_combo w) (responses w),
                 current_idx := current_idx w + 1\<rparr>"
    have "dc_inv d (w\<lparr>responses := AList.update (ERROR_COLUMNS ! nat (current_idx w)) (answer_combo w) (responses w),
                     current_idx := current_idx w + 1, dc_messages := dc_messages w,
                     dc_result := dc_result w\<rparr>)"
      using assms False by (intro dc_inv_advance) (auto simp: dc_inv_def)
    then have "dc_inv d ?w2" by simp
    then have "dc_inv d (load_current_question ?w2)"
      using assms(2) by (intro dc_inv_load_current_question) simp_all
    with False k r(1) show ?thesis
      by (simp add: next_question_def Let_def length_ERROR_COLUMNS)
  qed
qed

lemma dc_inv_step: "dc_inv d w \<Longrightarrow> dc_result w = None \<Longrightarrow> dc_inv d (dc_step w e)"
  by (cases e; cases "case e of Choose a \<Rightarrow> a | _ \<Rightarrow> AnswerNo")
     (auto simp: dc_inv_next_question, auto simp: dc_inv_def)

lemma dc_inv_run: "dc_inv d w \<Longrightarrow> dc_inv d (dc_run w es)"
  by (induction es arbitrary: w) (auto simp: dc_inv_step)


lemma nth_notin_take:
  "distinct xs \<Longrightarrow> k < length xs \<Longrightarrow> n \<le> k \<Longrightarrow> xs ! k \<notin> set (take n xs)"
  by (auto simp: in_set_conv_nth nth_eq_iff_index_eq)

lemma nth_in_take: "k < n \<Longrightarrow> k < length xs \<Longrightarrow> xs ! k \<in> set (take n xs)"
  by (auto simp: in_set_conv_nth intro!: exI [of _ k])

lemma dc_exec_frames:
  fixes session :: "dc_event list \<times> dc_end"
  assumes "dc_inv d w0"
  defines "w \<equiv> dc_exec w0 session"
  shows "\<exists>n. nat (current_idx w) \<le> n \<and>
             n \<le> nat (current_idx w) + 1 \<and>
             (dc_result w = Some Accepted \<longrightarrow> n = nat (current_idx w) + 1 \<or> current_idx w = 9) \<and>
             (\<forall>c. c \<notin> set (take n ERROR_COLUMNS) \<longrightarrow> map_of (responses w) c = map_of d c) \<and>
             (\<forall>c \<in> set (take n ERROR_COLUMNS). map_of (responses w) c \<in> {Some (str ''Yes''), Some (str ''No'')})"
    and "dc_result w \<noteq> None" and "0 \<le> current_idx w"
proof -
  define w' where "w' = dc_run w0 (fst session)"
  from assms(1) have i: "dc_inv d w'" unfolding w'_def by (rule dc_inv_run)
  have "(\<exists>n. nat (current_idx w) \<le> n \<and>
             n \<le> nat (current_idx w) + 1 \<and>
             (dc_result w = Some Accepted \<longrightarrow> n = nat (current_idx w) + 1 \<or> current_idx w = 9) \<and>
             (\<forall>c. c \<notin> set (take n ERROR_COLUMNS) \<longrightarrow> map_of (responses w) c = map_of d c) \<and>
             (\<forall>c \<in> set (take n ERROR_COLUMNS). map_of (responses w) c \<in> {Some (str ''Yes''), Some (str ''No'')})) \<and>
        dc_result w \<noteq> None \<and> 0 \<le> current_idx w"
  proof (cases "dc_result w' \<noteq> None")
    case True
    then have "w = w'" by (simp add: w_def dc_exec_def w'_def)
    with i True show ?thesis
      by (intro conjI exI [of _ "nat (current_idx w')"]) (auto simp: dc_inv_def)
  next
    case False
    then have n: "dc_result w' = None" by simp
    show ?thesis
    proof (cases "snd session")
      case PressFinish
      with n have "w = (record_answer w')\<lparr>dc_result := Some Accepted\<rparr>"
        by (simp add: w_def dc_exec_def w'_def finish_def)
      with record_answer_inv [OF i n] recorded_frame [OF i n] i show ?thesis
        by (intro conjI exI [of _ "nat (current_idx w' + 1)"]) (auto simp: dc_inv_def)
    next
      case CloseDialog
      with n have "w = w'\<lparr>dc_result := Some Rejected\<rparr>"
        by (simp add: w_def dc_exec_def w'_def)
      with i show ?thesis
        by (intro conjI exI [of _ "nat (current_idx w')"]) (auto simp: dc_inv_def)
    qed
  qed
  then show "\<exists>n. nat (current_idx w) \<le> n \<and>
             n \<le> nat (current_idx w) + 1 \<and>
             (dc_result w = Some Accepted \<longrightarrow> n = nat (current_idx w) + 1 \<or> current_idx w = 9) \<and>
             (\<forall>c. c \<notin> set (take n ERROR_COLUMNS) \<longrightarrow> map_of (responses w) c = map_of d c) \<and>
             (\<forall>c \<in> set (take n ERROR_COLUMNS). map_of (responses w) c \<in> {Some (str ''Yes''), Some (str ''No'')})"
    and "dc_result w \<noteq> None" and "0 \<le> current_idx w" by blast+
qed

lemma seed_responses_complete:
  assumes "seed = None \<or> (\<exists>d. seed = Some d \<and> set ERROR_COLUMNS \<subseteq> fst ` set d)"
    and "c \<in> set ERROR_COLUMNS"
  shows "map_of (seed_responses seed) c \<noteq> None"
proof (cases seed)
  case None
  with assms(2) show ?thesis
    by (simp add: seed_responses_def map_of_map_restrict)
next
  case (Some d)
  with assms show ?thesis
    by (auto simp: seed_responses_def map_of_eq_None_iff)
qed


text \<open>
  C4, as amended. For every run of the drill-down whose seed is absent or has all nine
  categories among its keys (what the cursor always supplies): the dialog ends; the answer
  set it returns has a value for each of the nine categories; a category after the one at
  which the dialog ended holds its seeded value, or \<open>No\<close> when there was no seed; and
  when the dialog is accepted, every category up to the one at which it ended holds a
  recorded answer, \<open>Yes\<close> or \<open>No\<close>.
\<close>

theorem drill_down_complete:
  assumes "seed = None \<or> (\<exists>d. seed = Some d \<and> set ERROR_COLUMNS \<subseteq> fst ` set d)"
    and "w = dc_exec (DetailedClassificationWindow_init seed) session"
  shows "dc_result w \<noteq> None \<and>
         (\<forall>c \<in> set ERROR_COLUMNS. \<exists>v. map_of (get_responses w) c = Some v) \<and>
         (\<forall>k<9. current_idx w < int k \<longrightarrow>
              map_of (get_responses w) (ERROR_COLUMNS ! k) =
              map_of (seed_responses seed) (ERROR_COLUMNS ! k)) \<and>
         (dc_result w = Some Accepted \<longrightarrow>
            (\<forall>k<9. int k \<le> current_idx w \<longrightarrow>
               map_of (get_responses w) (ERROR_COLUMNS ! k) \<in> {Some (str ''Yes''), Some (str ''No'')}))"
proof -
  note fr = dc_exec_frames [OF dc_inv_init, of seed session, folded assms(2)]
  from fr(1) obtain n where n: "nat (current_idx w) \<le> n" "n \<le> nat (current_idx w) + 1"
    "dc_result w = Some Accepted \<longrightarrow> n = nat (current_idx w) + 1 \<or> current_idx w = 9"
    "\<forall>c. c \<notin> set (take n ERROR_COLUMNS) \<longrightarrow> map_of (responses w) c = map_of (seed_responses seed) c"
    "\<forall>c \<in> set (take n ERROR_COLUMNS). map_of (responses w) c \<in> {Some (str ''Yes''), Some (str ''No'')}"
    by blast
  have p1: "\<exists>v. map_of (get_responses w) c = Some v" if "c \<in> set ERROR_COLUMNS" for c
  proof (cases "c \<in> set (take n ERROR_COLUMNS)")
    case True
    with n(5) show ?thesis by (auto simp: get_responses_def)
  next
    case False
    with n(4) seed_responses_complete [OF assms(1) that] show ?thesis
      by (auto simp: get_responses_def)
  qed
  have p2: "map_of (get_responses w) (ERROR_COLUMNS ! k) =
            map_of (seed_responses seed) (ERROR_COLUMNS ! k)"
    if "k < 9" "current_idx w < int k" for k
  proof -
    from that fr(3) n(2) have "n \<le> k" by linarith
    with that(1) have "ERROR_COLUMNS ! k \<notin> set (take n ERROR_COLUMNS)"
      by (intro nth_notin_take) (simp_all add: distinct_ERROR_COLUMNS length_ERROR_COLUMNS)
    with n(4) show ?thesis by (simp add: get_responses_def)
  qed
  have p3: "map_of (get_responses w) (ERROR_COLUMNS ! k) \<in> {Some (str ''Yes''), Some (str ''No'')}"
    if "dc_result w = Some Accepted" "k < 9" "int k \<le> current_idx w" for k
  proof -
    from that fr(3) n(1,3) have "k < n" by linarith
    with that(2) have "ERROR_COLUMNS ! k \<in> set (take n ERROR_COLUMNS)"
      by (intro nth_in_take) (simp_all add: length_ERROR_COLUMNS)
    with n(5) show ?thesis by (simp add: get_responses_def)
  qed
  from fr(2) p1 p2 p3 show ?thesis by blast
qed

lemma scenario_D_seed_complete: "set ERROR_COLUMNS \<subseteq> fst ` set scenario_D_seed"
  by (simp add: scenario_D_seed_def ERROR_COLUMNS_def)

lemma scenario_D_run:
  "dc_exec (DetailedClassificationWindow_init (Some scenario_D_seed))
     ([Choose AnswerNo, PressNext], PressFinish) =
   \<lparr>responses = map (\<lambda>col. (col, str ''No'')) ERROR_COLUMNS, error_keys = ERROR_COLUMNS,
    current_idx = 1, answer_combo = str ''No'', dc_result = Some Accepted, dc_messages = []\<rparr>"
  by code_simp

theorem drill_down_complete_witness:
  "get_responses (dc_exec (DetailedClassificationWindow_init (Some scenario_D_seed))
                    ([Choose AnswerNo, PressNext], PressFinish)) =
     map (\<lambda>col. (col, str ''No'')) ERROR_COLUMNS \<and>
   dc_result (dc_exec (DetailedClassificationWindow_init (Some scenario_D_seed))
                ([Choose AnswerNo, PressNext], PressFinish)) = Some Accepted \<and>
   map_of (get_responses (dc_exec (DetailedClassificationWindow_init (Some scenario_D_seed))
                            ([Choose AnswerNo, PressNext], PressFinish))) (str ''Grammar'') = Some (str ''No'') \<and>
   map_of (get_responses (dc_exec (DetailedClassificationWindow_init (Some scenario_D_seed))
                            ([Choose AnswerNo, PressNext], PressFinish))) (str ''Arithmetic'') =
     map_of scenario_D_seed (str ''Arithmetic'')"
proof -
  let ?w = "dc_exec (DetailedClassificationWindow_init (Some scenario_D_seed))
              ([Choose AnswerNo, PressNext], PressFinish)"
  have "Some scenario_D_seed = None \<or>
        (\<exists>d. Some scenario_D_seed = Some d \<and> set ERROR_COLUMNS \<subseteq> fst ` set d)"
    by (simp add: scenario_D_seed_complete)
  from drill_down_complete [OF this refl, of "([Choose AnswerNo, PressNext], PressFinish)"]
  have k: "\<forall>k<9. current_idx ?w < int k \<longrightarrow>
              map_of (get_responses ?w) (ERROR_COLUMNS ! k) =
              map_of (seed_responses (Some scenario_D_seed)) (ERROR_COLUMNS ! k)"
    by blast
  have i: "current_idx ?w = 1" "ERROR_COLUMNS ! 8 = str ''Arithmetic''"
    by (simp_all add: scenario_D_run ERROR_COLUMNS_def)
  from k [rule_format, of 8] i
  have "map_of (get_responses ?w) (str ''Arithmetic'') = map_of scenario_D_seed (str ''Arithmetic'')"
    by (simp add: seed_responses_def)
  moreover have "get_responses ?w = map (\<lambda>col. (col, str ''No'')) ERROR_COLUMNS"
    "dc_result ?w = Some Accepted"
    by (simp_all add: scenario_D_run get_responses_def)
  moreover have "map_of (map (\<lambda>col. (col, str ''No'')) ERROR_COLUMNS) (str ''Grammar'') = Some (str ''No'')"
    by (simp add: ERROR_COLUMNS_def)
  ultimately show ?thesis by simp
qed

text \<open>
  C4 as stated fails for a seed that lacks a category: seeded with \<open>Grammar\<close> alone, one
  Next and then Finish return a dictionary of two keys, with no value for the other seven
  categories.
\<close>

theorem drill_down_counterexample:
  "get_responses (dc_exec (DetailedClassificationWindow_init (Some [((str ''Grammar''), str ''Yes'')]))
                    ([Choose AnswerNo, PressNext], PressFinish)) =
     [((str ''Grammar''), str ''No''), ((str ''Factuality''), str ''No'')] \<and>
   map_of (get_responses (dc_exec (DetailedClassificationWindow_init (Some [((str ''Grammar''), str ''Yes'')]))
                            ([Choose AnswerNo, PressNext], PressFinish))) (str ''Hallucination'') = None"
  by code_simp


subsection \<open>Loading and saving\<close>

lemma set_fold_append_missing:
  "set (fold (\<lambda>col hs. if col \<notin> set hs then hs @ [col] else hs) cols h) = set h \<union> set cols"
  by (induction cols arbitrary: h) auto

lemma set_append_missing_columns:
  "set (append_missing_columns h) = set h \<union> set ERROR_COLUMNS"
  by (simp add: append_missing_columns_def set_fold_append_missing)

lemma fold_append_missing_prefix:
  "\<exists>ys. fold (\<lambda>col hs. if col \<notin> set hs then hs @ [col] else hs) cols h = h @ ys \<and>
        (distinct h \<longrightarrow> distinct (h @ ys))"
proof (induction cols arbitrary: h)
  case Nil
  then show ?case by simp
next
  case (Cons c cols)
  show ?case
  proof (cases "c \<in> set h")
    case True
    with Cons [of h] show ?thesis by simp
  next
    case False
    from Cons [of "h @ [c]"] obtain ys where
      "fold (\<lambda>col hs. if col \<notin> set hs then hs @ [col] else hs) cols (h @ [c]) = (h @ [c]) @ ys"
      "distinct (h @ [c]) \<longrightarrow> distinct ((h @ [c]) @ ys)" by blast
    with False show ?thesis by (intro exI [of _ "c # ys"]) auto
  qed
qed


lemma missing_columns_eq:
  "filter (\<lambda>c. c \<notin> set (append_missing_columns h)) REQUIRED_COLUMNS =
   filter (\<lambda>c. c \<notin> set h) [str ''question'', str ''true_answer'', str ''predicted_answer_full'', str ''is_correct'']"
  by (simp add: set_append_missing_columns REQUIRED_COLUMNS_def) (simp add: ERROR_COLUMNS_def)

text \<open>
  C6. When a required column is still missing after the category columns have been appended
  to the header, \<^verbatim>\<open>load_csv\<close> reports exactly the missing names, which are the fixed
  columns absent from the header of the file, and changes nothing else: the model, the
  path and the buttons of the window are those from before.
\<close>

theorem load_missing_columns:
  assumes "file_path \<noteq> []"
    and "\<exists>c \<in> set REQUIRED_COLUMNS. c \<notin> set (append_missing_columns fieldnames)"
  shows "load_csv self file_path (Inr (fieldnames # lines)) =
           mw_report (MissingColumns
                        (filter (\<lambda>c. c \<notin> set fieldnames)
                           [str ''question'', str ''true_answer'', str ''predicted_answer_full'', str ''is_correct'']))
             self \<and>
         set (filter (\<lambda>c. c \<notin> set fieldnames)
                [str ''question'', str ''true_answer'', str ''predicted_answer_full'', str ''is_correct'']) =
           set REQUIRED_COLUMNS - set (append_missing_columns fieldnames) \<and>
         model (load_csv self file_path (Inr (fieldnames # lines))) = model self \<and>
         csv_file_path (load_csv self file_path (Inr (fieldnames # lines))) = csv_file_path self \<and>
         annotate_btn (load_csv self file_path (Inr (fieldnames # lines))) = annotate_btn self \<and>
         save_btn (load_csv self file_path (Inr (fieldnames # lines))) = save_btn self"
proof -
  from assms(2) have "filter (\<lambda>c. c \<notin> set (append_missing_columns fieldnames)) REQUIRED_COLUMNS \<noteq> []"
    by (simp add: filter_empty_conv)
  with assms(1) have l: "load_csv self file_path (Inr (fieldnames # lines)) =
      mw_report (MissingColumns
                   (filter (\<lambda>c. c \<notin> set (append_missing_columns fieldnames)) REQUIRED_COLUMNS)) self"
    by (simp add: load_csv_def Let_def)
  have "set (filter (\<lambda>c. c \<notin> set (append_missing_columns fieldnames)) REQUIRED_COLUMNS) =
        set REQUIRED_COLUMNS - set (append_missing_columns fieldnames)" by auto
  with l show ?thesis
    unfolding missing_columns_eq by (simp add: mw_report_def)
qed

theorem load_missing_columns_witness:
  "load_csv (load_csv MainWindow_init (str ''demo.csv'') (Inr demo_lines)) (str ''short.csv'')
     (Inr [[str ''question'', str ''true_answer'', str ''Grammar''], [str ''q'', str ''a'', str ''Yes'']]) =
   mw_report (MissingColumns [str ''predicted_answer_full'', str ''is_correct''])
     (load_csv MainWindow_init (str ''demo.csv'') (Inr demo_lines)) \<and>
   model (load_csv (load_csv MainWindow_init (str ''demo.csv'') (Inr demo_lines)) (str ''short.csv'')
     (Inr [[str ''question'', str ''true_answer'', str ''Grammar''], [str ''q'', str ''a'', str ''Yes'']])) =
   Some \<lparr>getDataList = [demo_row0, demo_row1], getHeaders = REQUIRED_COLUMNS\<rparr>"
proof -
  have p: "(str ''short.csv'') \<noteq> []" by simp
  have "(str ''is_correct'') \<in> set REQUIRED_COLUMNS" by (simp add: REQUIRED_COLUMNS_def)
  moreover have "(str ''is_correct'') \<notin> set (append_missing_columns [str ''question'', str ''true_answer'', str ''Grammar''])"
    by (simp add: set_append_missing_columns ERROR_COLUMNS_def)
  ultimately have "\<exists>c \<in> set REQUIRED_COLUMNS.
      c \<notin> set (append_missing_columns [str ''question'', str ''true_answer'', str ''Grammar''])" by blast
  note l = load_missing_columns [OF p this, of "load_csv MainWindow_init (str ''demo.csv'') (Inr demo_lines)"
      "[[str ''q'', str ''a'', str ''Yes'']]"]
  from l have "load_csv (load_csv MainWindow_init (str ''demo.csv'') (Inr demo_lines)) (str ''short.csv'')
     (Inr [[str ''question'', str ''true_answer'', str ''Grammar''], [str ''q'', str ''a'', str ''Yes'']]) =
   mw_report (MissingColumns [str ''predicted_answer_full'', str ''is_correct''])
     (load_csv MainWindow_init (str ''demo.csv'') (Inr demo_lines))" by simp
  moreover from l have "model (load_csv (load_csv MainWindow_init (str ''demo.csv'') (Inr demo_lines)) (str ''short.csv'')
     (Inr [[str ''question'', str ''true_answer'', str ''Grammar''], [str ''q'', str ''a'', str ''Yes'']])) =
     model (load_csv MainWindow_init (str ''demo.csv'') (Inr demo_lines))" by blast
  ultimately show ?thesis by (simp add: demo_load)
qed


text \<open>Keys and values of the dictionary that \<^verbatim>\<open>DictReader\<close> makes of a line.\<close>

lemma keys_fold_pairs:
  "fst ` set (fold (\<lambda>(k, v). AList.update (Some k) (PyStr v)) ps r) =
     Some ` fst ` set ps \<union> fst ` set r"
proof (induction ps arbitrary: r)
  case Nil
  then show ?case by simp
next
  case (Cons p ps)
  obtain k v where p: "p = (k, v)" by (cases p)
  have "fst ` set (fold (\<lambda>(k, v). AList.update (Some k) (PyStr v)) (p # ps) r) =
        Some ` fst ` set ps \<union> ({Some k} \<union> fst ` set r)"
    by (simp add: p Cons.IH dom_update)
  also have "\<dots> = Some ` fst ` set (p # ps) \<union> fst ` set r"
    by (simp add: p)
  finally show ?case .
qed

lemma keys_fold_update:
  "fst ` set (fold (\<lambda>col. AList.update (Some col) (f col)) cols r) = Some ` set cols \<union> fst ` set r"
proof (induction cols arbitrary: r)
  case Nil
  then show ?case by simp
next
  case (Cons c cols)
  have "fst ` set (fold (\<lambda>col. AList.update (Some col) (f col)) (c # cols) r) =
        Some ` set cols \<union> ({Some c} \<union> fst ` set r)"
    by (simp add: Cons.IH dom_update)
  also have "\<dots> = Some ` set (c # cols) \<union> fst ` set r"
    by simp
  finally show ?case .
qed

lemma map_of_fold_pairs:
  "map_of (fold (\<lambda>(k, v). AList.update (Some k) (PyStr v)) ps r) key =
     (case key of
        None \<Rightarrow> map_of r None
      | Some k \<Rightarrow> (case map_of (rev ps) k of Some v \<Rightarrow> Some (PyStr v) | None \<Rightarrow> map_of r (Some k)))"
proof (induction ps arbitrary: r)
  case Nil
  then show ?case by (simp split: option.splits)
next
  case (Cons p ps)
  obtain k0 v0 where p: "p = (k0, v0)" by (cases p)
  show ?case
    by (simp add: p Cons.IH update_conv' map_add_def split: option.splits)
qed


lemma set_fst_zip: "fst ` set (zip xs ys) = set (take (length ys) xs)"
proof -
  have "fst ` set (zip xs ys) = set (map fst (zip xs ys))" by simp
  also have "\<dots> = set (take (min (length xs) (length ys)) xs)" by (simp only: map_fst_zip_take)
  also have "\<dots> = set (take (length ys) xs)" by (simp add: min_def)
  finally show ?thesis .
qed

lemma keys_DictReader_row:
  "fst ` set (DictReader_row fieldnames line) =
     Some ` set fieldnames \<union> (if length fieldnames < length line then {None} else {})"
proof -
  have "set (take (length line) fieldnames) \<union> set (drop (length line) fieldnames) = set fieldnames"
    by (metis append_take_drop_id set_append)
  then show ?thesis
    by (auto simp: DictReader_row_def Let_def keys_fold_pairs keys_fold_update dom_update set_fst_zip
          image_Un)
qed


text \<open>Under a column name the reader stores a string or \<^verbatim>\<open>None\<close>, never a list.\<close>

lemma row_get_DictReader_row:
  "row_get (DictReader_row fieldnames line) key dflt \<noteq> PyList xs"
  by (auto simp: row_get_def DictReader_row_def Let_def map_of_fold_update map_of_fold_pairs
        update_conv' split: option.splits if_splits)

lemma setPlainText_DictReader_row:
  "\<exists>t. setPlainText (row_get (DictReader_row fieldnames line) key dflt) = Inr t"
  by (cases "row_get (DictReader_row fieldnames line) key dflt")
     (simp_all add: setPlainText_def row_get_DictReader_row)

text \<open>The loop that gives a row its missing category fields.\<close>

lemma fill_missing_categories_id:
  assumes "Some ` set ERROR_COLUMNS \<subseteq> fst ` set r"
  shows "fill_missing_categories r = r"
proof -
  have "Some ` set cols \<subseteq> fst ` set r \<Longrightarrow>
        fold (\<lambda>col d. if map_of d (Some col) = None then AList.update (Some col) (PyStr (str ''No'')) d else d)
          cols r = r" for cols
    by (induction cols) (auto simp: map_of_eq_None_iff)
  with assms show ?thesis by (simp add: fill_missing_categories_def)
qed

lemma fill_DictReader_row:
  "set ERROR_COLUMNS \<subseteq> set headers \<Longrightarrow>
   fill_missing_categories (DictReader_row headers line) = DictReader_row headers line"
  by (rule fill_missing_categories_id) (auto simp: keys_DictReader_row)


lemma load_csv_ok:
  assumes "file_path \<noteq> []"
    and "set [str ''question'', str ''true_answer'', str ''predicted_answer_full'', str ''is_correct''] \<subseteq> set fieldnames"
  shows "load_csv self file_path (Inr (fieldnames # lines)) =
           self\<lparr>model := Some \<lparr>getDataList = map (DictReader_row (append_missing_columns fieldnames))
                                                (filter (\<lambda>line. line \<noteq> []) lines),
                                getHeaders = append_missing_columns fieldnames\<rparr>,
                csv_file_path := Some file_path, annotate_btn := True, save_btn := True\<rparr>"
proof -
  from assms(2) have m: "filter (\<lambda>c. c \<notin> set (append_missing_columns fieldnames)) REQUIRED_COLUMNS = []"
    unfolding missing_columns_eq by simp
  have "set ERROR_COLUMNS \<subseteq> set (append_missing_columns fieldnames)"
    by (simp add: set_append_missing_columns)
  then have "(\<lambda>line. fill_missing_categories (DictReader_row (append_missing_columns fieldnames) line)) =
             DictReader_row (append_missing_columns fieldnames)"
    by (simp add: fill_DictReader_row)
  with assms(1) m show ?thesis by (simp add: load_csv_def Let_def)
qed

lemma required_in_headers:
  assumes "set [str ''question'', str ''true_answer'', str ''predicted_answer_full'', str ''is_correct''] \<subseteq> set fieldnames"
  shows "set REQUIRED_COLUMNS \<subseteq> set (append_missing_columns fieldnames)"
  using assms by (auto simp: set_append_missing_columns REQUIRED_COLUMNS_def)

lemma row_get_Yes: "row_get r c [] = PyStr (str ''Yes'') \<longleftrightarrow> map_of r (Some c) = Some (PyStr (str ''Yes''))"
  by (auto simp: row_get_def split: option.splits)

lemma yes_no_text: "yes_no v = (if v = PyStr (str ''Yes'') then str ''Yes'' else str ''No'')"
  by (auto simp: yes_no_def split: pyval.splits)

lemma load_row_into_ui_answers:
  assumes "load_row_into_ui s (int i) = Inr s'" "i < length (csv_data s)" "c \<in> set ERROR_COLUMNS"
  shows "currentText (error_combos s' c) =
           (if \<not> locked (csv_data s ! i) \<and> map_of (csv_data s ! i) (Some c) = Some (PyStr (str ''Yes''))
            then str ''Yes'' else str ''No'')"
  using load_row_into_ui_fields [OF assms(1)] assms(2,3)
  by (auto simp: locked_def lock_combos_apply show_combos_apply yes_no_text row_get_Yes)

text \<open>
  Loading a row that \<^verbatim>\<open>load_csv\<close> stored raises exactly when the test on
  \<^verbatim>\<open>is_correct\<close> raises.
\<close>

lemma load_row_into_ui_DictReader_row:
  assumes "i < length (csv_data s)" "csv_data s ! i = DictReader_row fieldnames line"
  shows "case is_correct_true (csv_data s ! i) of
           Inl e \<Rightarrow> load_row_into_ui s (int i) = Inl e
         | Inr b \<Rightarrow> (\<exists>s'. load_row_into_ui s (int i) = Inr s')"
proof -
  obtain q where
    "setPlainText (row_get (DictReader_row fieldnames line) (str ''question'') []) = Inr q"
    using setPlainText_DictReader_row by blast
  moreover obtain t where
    "setPlainText (row_get (DictReader_row fieldnames line) (str ''true_answer'') []) = Inr t"
    using setPlainText_DictReader_row by blast
  moreover obtain p where
    "setPlainText (row_get (DictReader_row fieldnames line) (str ''predicted_answer_full'') []) = Inr p"
    using setPlainText_DictReader_row by blast
  ultimately show ?thesis using assms
    by (simp add: load_row_into_ui_in split: sum.splits)
qed

text \<open>
  C1, as amended. After a load that succeeds, the Field Set has all 13 required columns and
  every Row Record has each of them as a key, one record for each line that is not blank.
  When the cursor loads a row whose \<^verbatim>\<open>is_correct\<close> holds a string, each of the nine
  Working Answers is one of the two canonical tokens: \<open>Yes\<close> when the row is not locked
  and stores exactly \<open>Yes\<close> under the category, and \<open>No\<close> in every other case, so that a
  stored token outside the two-token domain is read as \<open>No\<close>. Loading a row whose
  \<^verbatim>\<open>is_correct\<close> holds no string raises.
\<close>

theorem load_rows_complete:
  assumes "file_path \<noteq> []"
    and "set [str ''question'', str ''true_answer'', str ''predicted_answer_full'', str ''is_correct''] \<subseteq> set fieldnames"
    and "records = filter (\<lambda>line. line \<noteq> []) lines"
  shows "\<exists>data.
           model (load_csv self file_path (Inr (fieldnames # lines))) =
             Some \<lparr>getDataList = data, getHeaders = append_missing_columns fieldnames\<rparr> \<and>
           set REQUIRED_COLUMNS \<subseteq> set (append_missing_columns fieldnames) \<and>
           length data = length records \<and>
           (\<forall>r \<in> set data. \<forall>c \<in> set REQUIRED_COLUMNS. map_of r (Some c) \<noteq> None) \<and>
           (\<forall>s i. csv_data s = data \<and> i < length data \<longrightarrow>
              (case is_correct_true (data ! i) of
                 Inl e \<Rightarrow> load_row_into_ui s (int i) = Inl e
               | Inr is_correct \<Rightarrow>
                   (\<exists>s'. load_row_into_ui s (int i) = Inr s' \<and>
                      (\<forall>c \<in> set ERROR_COLUMNS.
                         currentText (error_combos s' c) =
                           (if \<not> is_correct \<and> map_of (data ! i) (Some c) = Some (PyStr (str ''Yes''))
                            then str ''Yes'' else str ''No'')))))"
proof -
  let ?h = "append_missing_columns fieldnames"
  let ?data = "map (DictReader_row ?h) records"
  note req = required_in_headers [OF assms(2)]
  have m: "model (load_csv self file_path (Inr (fieldnames # lines))) =
             Some \<lparr>getDataList = ?data, getHeaders = ?h\<rparr>"
    by (simp add: load_csv_ok [OF assms(1,2)] assms(3))
  have k: "\<forall>r \<in> set ?data. \<forall>c \<in> set REQUIRED_COLUMNS. map_of r (Some c) \<noteq> None"
  proof (intro ballI)
    fix r c assume "r \<in> set ?data" "c \<in> set REQUIRED_COLUMNS"
    then obtain line where "r = DictReader_row ?h line" by auto
    moreover from req \<open>c \<in> set REQUIRED_COLUMNS\<close> have "Some c \<in> Some ` set ?h" by blast
    ultimately have "Some c \<in> fst ` set r" by (simp add: keys_DictReader_row)
    then show "map_of r (Some c) \<noteq> None" by (simp add: map_of_eq_None_iff)
  qed
  have a: "case is_correct_true (?data ! i) of
             Inl e \<Rightarrow> load_row_into_ui s (int i) = Inl e
           | Inr is_correct \<Rightarrow>
               (\<exists>s'. load_row_into_ui s (int i) = Inr s' \<and>
                  (\<forall>c \<in> set ERROR_COLUMNS.
                     currentText (error_combos s' c) =
                       (if \<not> is_correct \<and> map_of (?data ! i) (Some c) = Some (PyStr (str ''Yes''))
                        then str ''Yes'' else str ''No'')))"
    if s: "csv_data s = ?data" and i: "i < length ?data" for s i
  proof -
    from s i have i': "i < length (csv_data s)"
      and r: "csv_data s ! i = DictReader_row ?h (records ! i)" by simp_all
    show ?thesis
    proof (cases "is_correct_true (?data ! i)")
      case (Inl e)
      with load_row_into_ui_DictReader_row [OF i' r] s show ?thesis by simp
    next
      case (Inr b)
      with load_row_into_ui_DictReader_row [OF i' r] s
      obtain s' where s': "load_row_into_ui s (int i) = Inr s'" by auto
      from Inr have l: "locked (?data ! i) = b" by (auto simp: locked_def)
      have "\<forall>c \<in> set ERROR_COLUMNS.
              currentText (error_combos s' c) =
                (if \<not> b \<and> map_of (?data ! i) (Some c) = Some (PyStr (str ''Yes''))
                 then str ''Yes'' else str ''No'')"
        using load_row_into_ui_answers [OF s' i'] l unfolding s by simp
      with s' Inr show ?thesis by auto
    qed
  qed
  from m req k a show ?thesis
    by (intro exI [of _ ?data]) (simp del: set_map)
qed

theorem load_rows_complete_witness:
  "\<exists>data. model (load_csv MainWindow_init (str ''demo.csv'') (Inr demo_lines)) =
             Some \<lparr>getDataList = data, getHeaders = REQUIRED_COLUMNS\<rparr> \<and>
          length data = 2 \<and>
          map_of (data ! 1) (Some (str ''is_correct'')) \<noteq> None \<and>
          map_of (data ! 0) (Some (str ''Arithmetic'')) = Some (PyStr (str ''Maybe'')) \<and>
          RowOverviewWindow_init data 1 = Inr demo_window \<and>
          currentText (error_combos demo_window (str ''Arithmetic'')) = str ''No''"
proof -
  let ?lines = "tl demo_lines"
  let ?s = "\<lparr>csv_data = [demo_row0, demo_row1], current_index = 1 - 1,
      question_edit = [], true_answer_edit = [], pred_answer_edit = [],
      error_combos = (\<lambda>col. \<lparr>currentText = str ''No'', isEnabled = True\<rparr>),
      detail_btn = True, ov_result = None, ov_messages = []\<rparr>"
  have p: "(str ''demo.csv'') \<noteq> []" by simp
  have f: "set [str ''question'', str ''true_answer'', str ''predicted_answer_full'', str ''is_correct'']
             \<subseteq> set REQUIRED_COLUMNS"
    by (simp add: REQUIRED_COLUMNS_def)
  have r: "?lines = filter (\<lambda>line. line \<noteq> []) ?lines" by (simp add: demo_lines_def)
  have d: "REQUIRED_COLUMNS # ?lines = demo_lines" by (simp add: demo_lines_def)
  from load_rows_complete [OF p f r, of MainWindow_init, unfolded d append_missing_columns_REQUIRED]
  obtain data where data:
    "model (load_csv MainWindow_init (str ''demo.csv'') (Inr demo_lines)) =
       Some \<lparr>getDataList = data, getHeaders = REQUIRED_COLUMNS\<rparr>"
    "length data = length ?lines"
    "\<forall>r \<in> set data. \<forall>c \<in> set REQUIRED_COLUMNS. map_of r (Some c) \<noteq> None"
    "\<forall>s i. csv_data s = data \<and> i < length data \<longrightarrow>
       (case is_correct_true (data ! i) of
          Inl e \<Rightarrow> load_row_into_ui s (int i) = Inl e
        | Inr is_correct \<Rightarrow>
            (\<exists>s'. load_row_into_ui s (int i) = Inr s' \<and>
               (\<forall>c \<in> set ERROR_COLUMNS.
                  currentText (error_combos s' c) =
                    (if \<not> is_correct \<and> map_of (data ! i) (Some c) = Some (PyStr (str ''Yes''))
                     then str ''Yes'' else str ''No''))))"
    by blast
  from data(1) have e: "data = [demo_row0, demo_row1]" by (simp add: demo_load)
  from data(2) have l: "length data = 2" by (simp add: demo_lines_def)
  from data(3) l have "map_of (data ! 1) (Some (str ''is_correct'')) \<noteq> None"
    by (simp add: REQUIRED_COLUMNS_def)
  moreover have "map_of (data ! 0) (Some (str ''Arithmetic'')) = Some (PyStr (str ''Maybe''))"
    by (simp add: e demo_row0_def)
  moreover have i: "RowOverviewWindow_init data 1 = Inr demo_window"
    using demo_init by (simp add: e)
  moreover have "currentText (error_combos demo_window (str ''Arithmetic'')) = str ''No''"
  proof -
    have "load_row_into_ui ?s (int 0) = Inr demo_window"
      using demo_init by (simp add: RowOverviewWindow_init_def)
    moreover have "(str ''Arithmetic'') \<in> set ERROR_COLUMNS" by (simp add: ERROR_COLUMNS_def)
    moreover from data(4) [rule_format, of ?s 0]
    have "\<exists>s'. load_row_into_ui ?s (int 0) = Inr s' \<and>
               (\<forall>c \<in> set ERROR_COLUMNS.
                  currentText (error_combos s' c) =
                    (if \<not> False \<and> map_of (data ! 0) (Some c) = Some (PyStr (str ''Yes''))
                     then str ''Yes'' else str ''No''))"
      by (simp add: e is_correct_true_demo_row0)
    ultimately have "currentText (error_combos demo_window (str ''Arithmetic'')) =
        (if map_of (data ! 0) (Some (str ''Arithmetic'')) = Some (PyStr (str ''Yes''))
         then str ''Yes'' else str ''No'')"
      by auto
    then show ?thesis by (simp add: e demo_row0_def)
  qed
  ultimately show ?thesis using data(1) l by blast
qed

text \<open>
  C1 as stated fails: after the load of the demonstration file, the first record stores
  \<open>Maybe\<close> in its \<open>Arithmetic\<close> field, which is neither of the two canonical tokens.
\<close>

theorem load_counterexample:
  "map_of (getDataList (the (model (load_csv MainWindow_init (str ''demo.csv'') (Inr demo_lines)))) ! 0)
     (Some (str ''Arithmetic'')) = Some (PyStr (str ''Maybe'')) \<and>
   PyStr (str ''Maybe'') \<notin> {PyStr (str ''Yes''), PyStr (str ''No'')}"
  by (simp add: demo_load demo_row0_def)

text \<open>
  A category column that the header of the file lacks is appended to the very list that the
  reader uses for its field names, so the reader gives each record that does not reach the
  column that key with the value \<^verbatim>\<open>None\<close>, and the loop that would store \<open>No\<close>
  finds the key present.
\<close>

lemma absent_category_column:
  assumes "c \<in> set ERROR_COLUMNS" "c \<notin> set fieldnames" "length line \<le> length fieldnames"
  shows "map_of (fill_missing_categories (DictReader_row (append_missing_columns fieldnames) line))
           (Some c) = Some PyNone"
proof -
  let ?h = "append_missing_columns fieldnames"
  from fold_append_missing_prefix [of ERROR_COLUMNS fieldnames]
  obtain ys where ys: "?h = fieldnames @ ys"
    unfolding append_missing_columns_def by blast
  from assms(1) have "c \<in> set ?h" by (simp add: set_append_missing_columns)
  with assms(2) ys have c: "c \<in> set ys" by simp
  with assms(3) ys have lt: "length line < length ?h" by (cases ys) auto
  from assms(3) ys have "fst ` set (rev (zip ?h line)) \<subseteq> set fieldnames"
    by (auto dest!: set_zip_leftD simp: zip_append1)
  with assms(2) have "c \<notin> fst ` set (rev (zip ?h line))" by blast
  then have z: "map_of (rev (zip ?h line)) c = None" by (simp add: map_of_eq_None_iff)
  from assms(3) c ys have dr: "c \<in> set (drop (length line) ?h)" by simp
  from lt z dr have "map_of (DictReader_row ?h line) (Some c) = Some PyNone"
    by (simp add: DictReader_row_def Let_def map_of_fold_update map_of_fold_pairs)
  moreover have "set ERROR_COLUMNS \<subseteq> set ?h" by (simp add: set_append_missing_columns)
  ultimately show ?thesis by (simp add: fill_DictReader_row)
qed





text \<open>A record with more fields than the header has makes the writer raise.\<close>

lemma dict_to_list_long_line:
  assumes "length headers < length line"
  shows "dict_to_list headers (DictReader_row headers line) = Inl ValueError"
proof -
  from assms have "None \<in> fst ` set (DictReader_row headers line)"
    by (simp add: keys_DictReader_row)
  then have "\<exists>k \<in> set (map fst (DictReader_row headers line)). k \<notin> set (map Some headers)"
    by (intro bexI [of _ None]) auto
  then show ?thesis by (simp only: dict_to_list_def if_True)
qed




end
